theory Spec2Isabelle
  imports Main "HOL-Library.Word"
begin

section \<open>Bytes, text and the built-ins the decoders call\<close>

text \<open>
  A Python \<open>bytes\<close> object is a list of 8-bit words; a Python \<open>str\<close> is a list of Unicode
  code points. Python's integers are unbounded, so every number a decoder computes is an
  \<open>int\<close>: a subtraction that goes below zero stays negative, it never wraps.
\<close>

type_synonym byte = "8 word"
type_synonym bytes = "byte list"
type_synonym ustring = "nat list"

text \<open>
  The exceptions of the module, as values. \<open>ArithmeticUnderflow\<close> is the name the
  specification's error taxonomy gives to a negative computed length; it is listed so that
  statements can mention it. \<open>TruncatedPacket\<close> is the failure of the packet cursor.
\<close>

datatype error =
    TruncatedPacket
  | ArithmeticUnderflow
  | StructError
  | IndexError
  | TypeError
  | LookupError
  | UnicodeError

definition bnd :: "error + 'a \<Rightarrow> ('a \<Rightarrow> error + 'b) \<Rightarrow> error + 'b" where
  "bnd m f = (case m of Inl e \<Rightarrow> Inl e | Inr x \<Rightarrow> f x)"

definition ascii :: "string \<Rightarrow> ustring" where
  "ascii s = map of_char s"

text \<open>\<open>struct.unpack\<close> with a little-endian unsigned format of \<open>n\<close> bytes (\<open><H\<close>, \<open><Q\<close>):
  \<open>struct.error\<close> unless the buffer has exactly \<open>n\<close> bytes.\<close>

fun le_uint :: "bytes \<Rightarrow> int" where
  "le_uint [] = 0"
| "le_uint (b # bs) = uint b + 256 * le_uint bs"

definition unpack_le :: "nat \<Rightarrow> bytes \<Rightarrow> error + int" where
  "unpack_le n bs = (if length bs = n then Inr (le_uint bs) else Inl StructError)"

text \<open>\<open>struct.unpack('b', ...)\<close>: one signed byte.\<close>

definition unpack_b :: "bytes \<Rightarrow> error + int" where
  "unpack_b bs = (case bs of [b] \<Rightarrow> Inr (sint b) | _ \<Rightarrow> Inl StructError)"

text \<open>\<open>byte2int\<close> of pymysql: the number of the first byte.\<close>

definition byte2int :: "bytes \<Rightarrow> error + int" where
  "byte2int bs = (case bs of [] \<Rightarrow> Inl IndexError | b # _ \<Rightarrow> Inr (uint b))"

text \<open>\<open>binascii.hexlify\<close>: two lowercase hexadecimal digits for each byte.\<close>

definition hexdigit :: "nat \<Rightarrow> char" where
  "hexdigit n = ''0123456789abcdef'' ! n"

definition hexlify :: "bytes \<Rightarrow> string" where
  "hexlify bs = concat (map (\<lambda>b. [hexdigit (unat b div 16), hexdigit (unat b mod 16)]) bs)"

text \<open>The \<open>%d\<close> conversion of an integer: an optional minus sign and the decimal digits.\<close>

fun digits10 :: "nat \<Rightarrow> string" where
  "digits10 n =
     (if n < 10 then [''0123456789'' ! n]
      else digits10 (n div 10) @ [''0123456789'' ! (n mod 10)])"

declare digits10.simps [simp del]

definition fmt_d :: "int \<Rightarrow> string" where
  "fmt_d i = (if i < 0 then CHR ''-'' # digits10 (nat (- i)) else digits10 (nat i))"

text \<open>A slice \<open>xs[i:j]\<close> with \<open>0 \<le> i \<le> j\<close>.\<close>

definition slice :: "nat \<Rightarrow> nat \<Rightarrow> 'a list \<Rightarrow> 'a list" where
  "slice i j xs = take (j - i) (drop i xs)"

text \<open>\<open>bytes.rstrip(b'\x00')\<close>: the trailing NUL bytes removed.\<close>

definition rstrip_nul :: "bytes \<Rightarrow> bytes" where
  "rstrip_nul bs = rev (dropWhile (\<lambda>b. b = 0) (rev bs))"

subsection \<open>Strict UTF-8\<close>

text \<open>
  \<open>bytes.decode()\<close> and \<open>bytes.decode("utf-8")\<close> of Python 3: the shortest-form encodings
  of the code points up to U+10FFFF, the surrogates excluded; \<open>None\<close> is
  \<open>UnicodeDecodeError\<close>.
\<close>

definition cont_byte :: "byte \<Rightarrow> bool" where
  "cont_byte b = (0x80 \<le> b \<and> b \<le> 0xBF)"

fun utf8_decode :: "bytes \<Rightarrow> ustring option" where
  "utf8_decode [] = Some []"
| "utf8_decode (b0 # bs) =
     (if b0 < 0x80 then map_option ((#) (unat b0)) (utf8_decode bs)
      else if 0xC2 \<le> b0 \<and> b0 \<le> 0xDF then
        (case bs of
           b1 # r \<Rightarrow>
             if cont_byte b1
             then map_option ((#) ((unat b0 - 0xC0) * 64 + (unat b1 - 0x80))) (utf8_decode r)
             else None
         | _ \<Rightarrow> None)
      else if 0xE0 \<le> b0 \<and> b0 \<le> 0xEF then
        (case bs of
           b1 # b2 # r \<Rightarrow>
             if cont_byte b1 \<and> cont_byte b2
                \<and> (if b0 = 0xE0 then 0xA0 \<le> b1 else True)
                \<and> (if b0 = 0xED then b1 \<le> 0x9F else True)
             then map_option
                    ((#) ((unat b0 - 0xE0) * 4096 + (unat b1 - 0x80) * 64 + (unat b2 - 0x80)))
                    (utf8_decode r)
             else None
         | _ \<Rightarrow> None)
      else if 0xF0 \<le> b0 \<and> b0 \<le> 0xF4 then
        (case bs of
           b1 # b2 # b3 # r \<Rightarrow>
             if cont_byte b1 \<and> cont_byte b2 \<and> cont_byte b3
                \<and> (if b0 = 0xF0 then 0x90 \<le> b1 else True)
                \<and> (if b0 = 0xF4 then b1 \<le> 0x8F else True)
             then map_option
                    ((#) ((unat b0 - 0xF0) * 262144 + (unat b1 - 0x80) * 4096
                          + (unat b2 - 0x80) * 64 + (unat b3 - 0x80)))
                    (utf8_decode r)
             else None
         | _ \<Rightarrow> None)
      else None)"

text \<open>\<open>bytes.decode()\<close> with the default codec: the text, or \<open>UnicodeError\<close>.\<close>

definition decode_default :: "bytes \<Rightarrow> error + ustring" where
  "decode_default bs = (case utf8_decode bs of None \<Rightarrow> Inl UnicodeError | Some t \<Rightarrow> Inr t)"

section \<open>The packet\<close>

text \<open>
  Modelled from the spec: the packet wrapper (\<open>pymysqlreplication/packet.py\<close>) lies outside
  \<open>event.py\<close>. The specification's ByteCursor contract: \<open>read(n)\<close> returns the next
  \<open>n\<close> bytes and fails if fewer than \<open>n\<close> bytes remain, a short read is a hard failure and
  is never silently truncated; \<open>advance(n)\<close> skips without returning bytes; fixed-width
  little-endian integer reads; the count of bytes consumed. A read returns exactly \<open>n\<close>
  bytes or fails, and no byte string has a negative length, so a negative \<open>n\<close> fails like a
  short read. The packet also carries the header fields an outer reader has already
  decoded: event type, timestamp, declared total event size and log position.
\<close>

record packet =
  data :: bytes
  read_bytes :: int
  pkt_event_type :: nat
  pkt_timestamp :: int
  pkt_event_size :: int
  log_pos :: int

definition read :: "int \<Rightarrow> packet \<Rightarrow> error + (bytes \<times> packet)" where
  "read n p =
     (if n < 0 \<or> int (length (data p)) < n then Inl TruncatedPacket
      else Inr (take (nat n) (data p),
                p\<lparr>data := drop (nat n) (data p), read_bytes := read_bytes p + n\<rparr>))"

definition advance :: "int \<Rightarrow> packet \<Rightarrow> error + packet" where
  "advance n p =
     (if n < 0 \<or> int (length (data p)) < n then Inl TruncatedPacket
      else Inr (p\<lparr>data := drop (nat n) (data p), read_bytes := read_bytes p + n\<rparr>))"

definition read_uint :: "nat \<Rightarrow> packet \<Rightarrow> error + (int \<times> packet)" where
  "read_uint n p = bnd (read (int n) p) (\<lambda>(bs, p'). Inr (le_uint bs, p'))"

definition read_uint8 :: "packet \<Rightarrow> error + (int \<times> packet)" where
  "read_uint8 = read_uint 1"

definition read_uint16 :: "packet \<Rightarrow> error + (int \<times> packet)" where
  "read_uint16 = read_uint 2"

definition read_uint32 :: "packet \<Rightarrow> error + (int \<times> packet)" where
  "read_uint32 = read_uint 4"

section \<open>The base event\<close>

text \<open>
  The keyword arguments every constructor accepts. \<open>BinLogEvent.__init__\<close> names six of
  them; the table map and the control connection are opaque to this module (type
  variables). The \<open>packet\<close> attribute of an event is a reference to the packet object the
  decoder reads from: a decoder returns the event together with the packet as the reads
  left it.
\<close>

record kwargs =
  only_tables :: "string list option"
  ignored_tables :: "string list option"
  only_schemas :: "string list option"
  ignored_schemas :: "string list option"
  freeze_schema :: bool
  kw_fail_on_table_metadata_unavailable :: bool

record ('tm, 'cc) BinLogEvent =
  table_map :: 'tm
  event_type :: nat
  timestamp :: int
  event_size :: int
  ctl_connection :: 'cc
  fail_on_table_metadata_unavailable :: bool
  processed :: bool
  complete :: bool

definition BinLogEvent_init ::
  "packet \<Rightarrow> int \<Rightarrow> 'tm \<Rightarrow> 'cc \<Rightarrow> kwargs \<Rightarrow> ('tm, 'cc) BinLogEvent" where
  "BinLogEvent_init from_packet es tm cc kw =
     \<lparr>table_map = tm,
      event_type = pkt_event_type from_packet,
      timestamp = pkt_timestamp from_packet,
      event_size = es,
      ctl_connection = cc,
      fail_on_table_metadata_unavailable = kw_fail_on_table_metadata_unavailable kw,
      processed = True,
      complete = True\<rparr>"

text \<open>\<open>_read_table_id\<close>: six bytes, zero-extended to eight, little-endian.\<close>

definition read_table_id :: "packet \<Rightarrow> error + (int \<times> packet)" where
  "read_table_id p =
     bnd (read 6 p) (\<lambda>(bs, p'). bnd (unpack_le 8 (bs @ [0, 0])) (\<lambda>v. Inr (v, p')))"

section \<open>GtidEvent\<close>

record ('tm, 'cc) GtidEvent = "('tm, 'cc) BinLogEvent" +
  commit_flag :: bool
  sid :: bytes
  gno :: int

definition GtidEvent_init ::
  "packet \<Rightarrow> int \<Rightarrow> 'tm \<Rightarrow> 'cc \<Rightarrow> kwargs \<Rightarrow> error + (('tm, 'cc) GtidEvent \<times> packet)" where
  "GtidEvent_init from_packet es tm cc kw =
     (let base = BinLogEvent_init from_packet es tm cc kw in
      bnd (read 1 from_packet) (\<lambda>(b, p1).
      bnd (byte2int b) (\<lambda>c.
      bnd (read 16 p1) (\<lambda>(s, p2).
      bnd (read 8 p2) (\<lambda>(g, p3).
      bnd (unpack_le 8 g) (\<lambda>n.
        Inr (BinLogEvent.extend base (GtidEvent.fields (c = 1) s n), p3)))))))"

definition gtid :: "('tm, 'cc) GtidEvent \<Rightarrow> string" where
  "gtid e =
     (let nibbles = hexlify (sid e) in
      take 8 nibbles @ ''-'' @ slice 8 12 nibbles @ ''-'' @ slice 12 16 nibbles @ ''-''
        @ slice 16 20 nibbles @ ''-'' @ drop 20 nibbles @ '':'' @ fmt_d (gno e))"

section \<open>RotateEvent\<close>

subsection \<open>The pattern \<open>.+\.\d{6}\<close> on bytes\<close>

text \<open>
  \<open>re.findall(b'.+\.\d{6}', data)\<close> as the backtracking matcher runs it. In a bytes
  pattern \<open>.\<close> is any byte but the line feed and \<open>\d\<close> is an ASCII digit. At a start
  position the greedy \<open>.+\<close> first takes the whole run of bytes that are not line feeds,
  then gives them back one at a time, down to one, until a dot and six digits follow.
  \<open>findall\<close> tries the start positions from left to right and resumes after each match.
\<close>

definition is_digit :: "byte \<Rightarrow> bool" where
  "is_digit b = (0x30 \<le> b \<and> b \<le> 0x39)"

definition any_char :: "byte \<Rightarrow> bool" where
  "any_char b = (b \<noteq> 0x0A)"

definition dot_digits :: "bytes \<Rightarrow> bool" where
  "dot_digits bs = (case bs of [] \<Rightarrow> False | b # r \<Rightarrow> b = 0x2E \<and> 6 \<le> length r \<and> list_all is_digit (take 6 r))"

fun backtrack :: "bytes \<Rightarrow> nat \<Rightarrow> bytes option" where
  "backtrack bs 0 = None"
| "backtrack bs (Suc k) =
     (if dot_digits (drop (Suc k) bs) then Some (take (Suc k + 7) bs) else backtrack bs k)"

definition match_at :: "bytes \<Rightarrow> bytes option" where
  "match_at bs = backtrack bs (length (takeWhile any_char bs))"

lemma dot_digits_length: "dot_digits bs \<Longrightarrow> 7 \<le> length bs"
  by (auto simp: dot_digits_def split: list.splits)

lemma backtrack_length: "backtrack bs k = Some m \<Longrightarrow> 8 \<le> length m"
proof (induction k)
  case 0
  then show ?case by simp
next
  case (Suc k)
  show ?case
  proof (cases "dot_digits (drop (Suc k) bs)")
    case True
    then have "7 \<le> length (drop (Suc k) bs)"
      by (rule dot_digits_length)
    moreover from True Suc.prems have "m = take (Suc k + 7) bs"
      by simp
    ultimately show ?thesis by simp
  next
    case False
    with Suc show ?thesis by simp
  qed
qed

function findall :: "bytes \<Rightarrow> bytes list" where
  "findall [] = []"
| "findall (b # bs) =
     (case match_at (b # bs) of
        Some m \<Rightarrow> m # findall (drop (length m) (b # bs))
      | None \<Rightarrow> findall bs)"
  by pat_completeness auto
termination
proof (relation "measure length")
  fix b :: byte and bs m :: bytes
  assume "match_at (b # bs) = Some m"
  then have "8 \<le> length m"
    by (simp add: match_at_def backtrack_length)
  then show "(drop (length m) (b # bs), b # bs) \<in> measure length"
    by simp
qed simp_all

definition item0 :: "'a list \<Rightarrow> error + 'a" where
  "item0 xs = (case xs of [] \<Rightarrow> Inl IndexError | x # _ \<Rightarrow> Inr x)"

subsection \<open>The decoder\<close>

record ('tm, 'cc) RotateEvent = "('tm, 'cc) BinLogEvent" +
  position :: int
  next_binlog :: "ustring option"

definition RotateEvent_init ::
  "packet \<Rightarrow> int \<Rightarrow> 'tm \<Rightarrow> 'cc \<Rightarrow> kwargs \<Rightarrow> error + (('tm, 'cc) RotateEvent \<times> packet)" where
  "RotateEvent_init from_packet es tm cc kw =
     (let base = BinLogEvent_init from_packet es tm cc kw in
      bnd (read 8 from_packet) (\<lambda>(b, p1).
      bnd (unpack_le 8 b) (\<lambda>pos.
      bnd (read (es - 8) p1) (\<lambda>(rest_of_event_data, p2).
        (case bnd (item0 (findall rest_of_event_data)) decode_default of
           Inr name \<Rightarrow> Inr (BinLogEvent.extend base (RotateEvent.fields pos (Some name)), p2)
         | Inl e \<Rightarrow>
             if e = IndexError
             then Inr (BinLogEvent.extend base (RotateEvent.fields pos None), p2)
             else Inl e)))))"

section \<open>FormatDescriptionEvent\<close>

text \<open>
  \<open>utils.is_checksum_supported\<close> lies outside \<open>event.py\<close>: the predicate on the server
  version is a parameter of the decoder.
\<close>

record ('tm, 'cc) FormatDescriptionEvent = "('tm, 'cc) BinLogEvent" +
  binlog_version :: int
  server_version :: ustring
  has_checksum :: bool

definition FormatDescriptionEvent_init ::
  "(ustring \<Rightarrow> bool) \<Rightarrow> packet \<Rightarrow> int \<Rightarrow> 'tm \<Rightarrow> 'cc \<Rightarrow> kwargs
     \<Rightarrow> error + (('tm, 'cc) FormatDescriptionEvent \<times> packet)" where
  "FormatDescriptionEvent_init is_checksum_supported from_packet es tm cc kw =
     (let base = BinLogEvent_init from_packet es tm cc kw in
      bnd (read 2 from_packet) (\<lambda>(b, p1).
      bnd (unpack_le 2 b) (\<lambda>bv.
      bnd (read 50 p1) (\<lambda>(v, p2).
      bnd (decode_default (rstrip_nul v)) (\<lambda>sv.
        if is_checksum_supported sv then
          (let event_size_without_header = pkt_event_size p2 - 19 in
           bnd (read ((event_size_without_header - 2 - 50) - 5) p2) (\<lambda>(skipped, p3).
           bnd (read 1 p3) (\<lambda>(a, p4).
           bnd (unpack_b a) (\<lambda>alg.
             Inr (BinLogEvent.extend base (FormatDescriptionEvent.fields bv sv (alg = 1)), p4)))))
        else
          Inr (BinLogEvent.extend base (FormatDescriptionEvent.fields bv sv False), p2))))))"

section \<open>StopEvent, XidEvent, HeartbeatLogEvent\<close>

definition StopEvent_init ::
  "packet \<Rightarrow> int \<Rightarrow> 'tm \<Rightarrow> 'cc \<Rightarrow> kwargs \<Rightarrow> error + (('tm, 'cc) BinLogEvent \<times> packet)" where
  "StopEvent_init from_packet es tm cc kw =
     Inr (BinLogEvent_init from_packet es tm cc kw, from_packet)"

record ('tm, 'cc) XidEvent = "('tm, 'cc) BinLogEvent" +
  xid :: int

definition XidEvent_init ::
  "packet \<Rightarrow> int \<Rightarrow> 'tm \<Rightarrow> 'cc \<Rightarrow> kwargs \<Rightarrow> error + (('tm, 'cc) XidEvent \<times> packet)" where
  "XidEvent_init from_packet es tm cc kw =
     (let base = BinLogEvent_init from_packet es tm cc kw in
      bnd (read 8 from_packet) (\<lambda>(b, p1).
      bnd (unpack_le 8 b) (\<lambda>x.
        Inr (BinLogEvent.extend base (XidEvent.fields x), p1))))"

record ('tm, 'cc) HeartbeatLogEvent = "('tm, 'cc) BinLogEvent" +
  ident :: ustring

definition HeartbeatLogEvent_init ::
  "packet \<Rightarrow> int \<Rightarrow> 'tm \<Rightarrow> 'cc \<Rightarrow> kwargs \<Rightarrow> error + (('tm, 'cc) HeartbeatLogEvent \<times> packet)" where
  "HeartbeatLogEvent_init from_packet es tm cc kw =
     (let base = BinLogEvent_init from_packet es tm cc kw in
      bnd (read es from_packet) (\<lambda>(b, p1).
      bnd (decode_default b) (\<lambda>name.
        Inr (BinLogEvent.extend base (HeartbeatLogEvent.fields name), p1))))"

section \<open>QueryEvent\<close>

text \<open>
  The query of a QueryEvent is a \<open>str\<close> when a decoding succeeded and the \<open>bytes\<close> object
  itself otherwise. \<open>chardet.detect(query)['encoding']\<close> is an encoding name or \<open>None\<close>
  (the detector is a parameter); \<open>bytes.decode(encoding)\<close> raises \<open>TypeError\<close> when the
  encoding is \<open>None\<close>, \<open>LookupError\<close> when the codec registry (a parameter) has no codec of
  that name, and \<open>UnicodeDecodeError\<close> when the codec rejects the bytes.
\<close>

datatype pyvalue = Str ustring | Bytes bytes

type_synonym detector = "bytes \<Rightarrow> string option"
type_synonym registry = "string \<Rightarrow> (bytes \<Rightarrow> ustring option) option"

definition decode_utf8 :: "bytes \<Rightarrow> error + ustring" where
  "decode_utf8 bs = (case utf8_decode bs of None \<Rightarrow> Inl UnicodeError | Some t \<Rightarrow> Inr t)"

definition decode_with :: "registry \<Rightarrow> string option \<Rightarrow> bytes \<Rightarrow> error + ustring" where
  "decode_with codecs encoding bs =
     (case encoding of
        None \<Rightarrow> Inl TypeError
      | Some name \<Rightarrow>
          (case codecs name of
             None \<Rightarrow> Inl LookupError
           | Some dec \<Rightarrow> (case dec bs of None \<Rightarrow> Inl UnicodeError | Some t \<Rightarrow> Inr t)))"

definition decode_query :: "detector \<Rightarrow> registry \<Rightarrow> bytes \<Rightarrow> error + pyvalue" where
  "decode_query detect codecs query =
     (if query = [] then Inr (Bytes query)
      else
        (case decode_utf8 query of
           Inr encoded_query \<Rightarrow> Inr (Str encoded_query)
         | Inl e \<Rightarrow>
             if e = UnicodeError then
               (case decode_with codecs (detect query) query of
                  Inr encoded_query \<Rightarrow> Inr (Str encoded_query)
                | Inl e' \<Rightarrow>
                    if e' = TypeError \<or> e' = UnicodeError then Inr (Bytes query) else Inl e')
             else Inl e))"

record ('tm, 'cc) QueryEvent = "('tm, 'cc) BinLogEvent" +
  slave_proxy_id :: int
  execution_time :: int
  schema_length :: int
  error_code :: int
  status_vars_length :: int
  status_vars :: bytes
  schema :: bytes
  query :: pyvalue

definition QueryEvent_init ::
  "detector \<Rightarrow> registry \<Rightarrow> packet \<Rightarrow> int \<Rightarrow> 'tm \<Rightarrow> 'cc \<Rightarrow> kwargs
     \<Rightarrow> error + (('tm, 'cc) QueryEvent \<times> packet)" where
  "QueryEvent_init detect codecs from_packet es tm cc kw =
     (let base = BinLogEvent_init from_packet es tm cc kw in
      bnd (read_uint32 from_packet) (\<lambda>(spid, p1).
      bnd (read_uint32 p1) (\<lambda>(et, p2).
      bnd (read 1 p2) (\<lambda>(b, p3).
      bnd (byte2int b) (\<lambda>sl.
      bnd (read_uint16 p3) (\<lambda>(ec, p4).
      bnd (read_uint16 p4) (\<lambda>(svl, p5).
      bnd (read svl p5) (\<lambda>(sv, p6).
      bnd (read sl p6) (\<lambda>(sch, p7).
      bnd (advance 1 p7) (\<lambda>p8.
      bnd (read (es - 13 - svl - sl - 1) p8) (\<lambda>(q, p9).
      bnd (decode_query detect codecs q) (\<lambda>qv.
        Inr (BinLogEvent.extend base (QueryEvent.fields spid et sl ec svl sv sch qv), p9)))))))))))))"

section \<open>BeginLoadQueryEvent, ExecuteLoadQueryEvent, IntvarEvent, NotImplementedEvent\<close>

record ('tm, 'cc) BeginLoadQueryEvent = "('tm, 'cc) BinLogEvent" +
  file_id :: int
  block_data :: bytes

definition BeginLoadQueryEvent_init ::
  "packet \<Rightarrow> int \<Rightarrow> 'tm \<Rightarrow> 'cc \<Rightarrow> kwargs
     \<Rightarrow> error + (('tm, 'cc) BeginLoadQueryEvent \<times> packet)" where
  "BeginLoadQueryEvent_init from_packet es tm cc kw =
     (let base = BinLogEvent_init from_packet es tm cc kw in
      bnd (read_uint32 from_packet) (\<lambda>(f, p1).
      bnd (read (es - 4) p1) (\<lambda>(d, p2).
        Inr (BinLogEvent.extend base (BeginLoadQueryEvent.fields f d), p2))))"

text \<open>The fields of ExecuteLoadQueryEvent carry the prefix \<open>x_\<close>: five of them have the
  names of QueryEvent's.\<close>

record ('tm, 'cc) ExecuteLoadQueryEvent = "('tm, 'cc) BinLogEvent" +
  x_slave_proxy_id :: int
  x_execution_time :: int
  x_schema_length :: int
  x_error_code :: int
  x_status_vars_length :: int
  x_file_id :: int
  x_start_pos :: int
  x_end_pos :: int
  x_dup_handling_flags :: int

definition ExecuteLoadQueryEvent_init ::
  "packet \<Rightarrow> int \<Rightarrow> 'tm \<Rightarrow> 'cc \<Rightarrow> kwargs
     \<Rightarrow> error + (('tm, 'cc) ExecuteLoadQueryEvent \<times> packet)" where
  "ExecuteLoadQueryEvent_init from_packet es tm cc kw =
     (let base = BinLogEvent_init from_packet es tm cc kw in
      bnd (read_uint32 from_packet) (\<lambda>(spid, p1).
      bnd (read_uint32 p1) (\<lambda>(et, p2).
      bnd (read_uint8 p2) (\<lambda>(sl, p3).
      bnd (read_uint16 p3) (\<lambda>(ec, p4).
      bnd (read_uint16 p4) (\<lambda>(svl, p5).
      bnd (read_uint32 p5) (\<lambda>(f, p6).
      bnd (read_uint32 p6) (\<lambda>(sp, p7).
      bnd (read_uint32 p7) (\<lambda>(ep, p8).
      bnd (read_uint8 p8) (\<lambda>(dh, p9).
        Inr (BinLogEvent.extend base
               (ExecuteLoadQueryEvent.fields spid et sl ec svl f sp ep dh), p9)))))))))))"

text \<open>The attributes \<open>type\<close> and \<open>value\<close> of IntvarEvent carry the prefix \<open>intvar_\<close>.\<close>

record ('tm, 'cc) IntvarEvent = "('tm, 'cc) BinLogEvent" +
  intvar_type :: int
  intvar_value :: int

definition IntvarEvent_init ::
  "packet \<Rightarrow> int \<Rightarrow> 'tm \<Rightarrow> 'cc \<Rightarrow> kwargs \<Rightarrow> error + (('tm, 'cc) IntvarEvent \<times> packet)" where
  "IntvarEvent_init from_packet es tm cc kw =
     (let base = BinLogEvent_init from_packet es tm cc kw in
      bnd (read_uint8 from_packet) (\<lambda>(t, p1).
      bnd (read_uint32 p1) (\<lambda>(v, p2).
        Inr (BinLogEvent.extend base (IntvarEvent.fields t v), p2))))"

definition NotImplementedEvent_init ::
  "packet \<Rightarrow> int \<Rightarrow> 'tm \<Rightarrow> 'cc \<Rightarrow> kwargs \<Rightarrow> error + (('tm, 'cc) BinLogEvent \<times> packet)" where
  "NotImplementedEvent_init from_packet es tm cc kw =
     (let base = BinLogEvent_init from_packet es tm cc kw in
      bnd (advance es from_packet) (\<lambda>p1. Inr (base, p1)))"

section \<open>Constructing an event of a given class\<close>

text \<open>
  The packet wrapper looks the event class up by the event-type code and calls it on the
  packet; codes without a class go to NotImplementedEvent. The lookup table lies outside
  \<open>event.py\<close>: the class is an argument here. The capabilities from outside the
  module are collected in one record.
\<close>

record externals =
  is_checksum_supported :: "ustring \<Rightarrow> bool"
  detect :: detector
  codecs :: registry

datatype variant =
    VGtid | VRotate | VFormatDescription | VStop | VXid | VHeartbeatLog | VQuery
  | VBeginLoadQuery | VExecuteLoadQuery | VIntvar | VNotImplemented

datatype ('tm, 'cc) event =
    Gtid "('tm, 'cc) GtidEvent"
  | Rotate "('tm, 'cc) RotateEvent"
  | FormatDescription "('tm, 'cc) FormatDescriptionEvent"
  | Stop "('tm, 'cc) BinLogEvent"
  | Xid "('tm, 'cc) XidEvent"
  | HeartbeatLog "('tm, 'cc) HeartbeatLogEvent"
  | Query "('tm, 'cc) QueryEvent"
  | BeginLoadQuery "('tm, 'cc) BeginLoadQueryEvent"
  | ExecuteLoadQuery "('tm, 'cc) ExecuteLoadQueryEvent"
  | Intvar "('tm, 'cc) IntvarEvent"
  | NotImplemented "('tm, 'cc) BinLogEvent"

definition wrap :: "('a \<Rightarrow> 'e) \<Rightarrow> error + ('a \<times> packet) \<Rightarrow> error + ('e \<times> packet)" where
  "wrap C r = (case r of Inl e \<Rightarrow> Inl e | Inr (x, p) \<Rightarrow> Inr (C x, p))"

fun construct ::
  "externals \<Rightarrow> variant \<Rightarrow> packet \<Rightarrow> int \<Rightarrow> 'tm \<Rightarrow> 'cc \<Rightarrow> kwargs
     \<Rightarrow> error + (('tm, 'cc) event \<times> packet)" where
  "construct x VGtid p es tm cc kw = wrap Gtid (GtidEvent_init p es tm cc kw)"
| "construct x VRotate p es tm cc kw = wrap Rotate (RotateEvent_init p es tm cc kw)"
| "construct x VFormatDescription p es tm cc kw =
     wrap FormatDescription (FormatDescriptionEvent_init (is_checksum_supported x) p es tm cc kw)"
| "construct x VStop p es tm cc kw = wrap Stop (StopEvent_init p es tm cc kw)"
| "construct x VXid p es tm cc kw = wrap Xid (XidEvent_init p es tm cc kw)"
| "construct x VHeartbeatLog p es tm cc kw =
     wrap HeartbeatLog (HeartbeatLogEvent_init p es tm cc kw)"
| "construct x VQuery p es tm cc kw =
     wrap Query (QueryEvent_init (detect x) (codecs x) p es tm cc kw)"
| "construct x VBeginLoadQuery p es tm cc kw =
     wrap BeginLoadQuery (BeginLoadQueryEvent_init p es tm cc kw)"
| "construct x VExecuteLoadQuery p es tm cc kw =
     wrap ExecuteLoadQuery (ExecuteLoadQueryEvent_init p es tm cc kw)"
| "construct x VIntvar p es tm cc kw = wrap Intvar (IntvarEvent_init p es tm cc kw)"
| "construct x VNotImplemented p es tm cc kw =
     wrap NotImplemented (NotImplementedEvent_init p es tm cc kw)"

text \<open>The attributes of the base class that an event of any class carries.\<close>

fun envelope :: "('tm, 'cc) event \<Rightarrow> ('tm, 'cc) BinLogEvent" where
  "envelope (Gtid e) = BinLogEvent.truncate e"
| "envelope (Rotate e) = BinLogEvent.truncate e"
| "envelope (FormatDescription e) = BinLogEvent.truncate e"
| "envelope (Stop e) = e"
| "envelope (Xid e) = BinLogEvent.truncate e"
| "envelope (HeartbeatLog e) = BinLogEvent.truncate e"
| "envelope (Query e) = BinLogEvent.truncate e"
| "envelope (BeginLoadQuery e) = BinLogEvent.truncate e"
| "envelope (ExecuteLoadQuery e) = BinLogEvent.truncate e"
| "envelope (Intvar e) = BinLogEvent.truncate e"
| "envelope (NotImplemented e) = e"

fun class_name :: "('tm, 'cc) event \<Rightarrow> string" where
  "class_name (Gtid e) = ''GtidEvent''"
| "class_name (Rotate e) = ''RotateEvent''"
| "class_name (FormatDescription e) = ''FormatDescriptionEvent''"
| "class_name (Stop e) = ''StopEvent''"
| "class_name (Xid e) = ''XidEvent''"
| "class_name (HeartbeatLog e) = ''HeartbeatLogEvent''"
| "class_name (Query e) = ''QueryEvent''"
| "class_name (BeginLoadQuery e) = ''BeginLoadQueryEvent''"
| "class_name (ExecuteLoadQuery e) = ''ExecuteLoadQueryEvent''"
| "class_name (Intvar e) = ''IntvarEvent''"
| "class_name (NotImplemented e) = ''NotImplementedEvent''"

section \<open>The diagnostic dump\<close>

text \<open>
  \<open>dump\<close> prints lines; the model returns them in order, the final \<open>print()\<close> being the
  empty line. \<open>datetime.fromtimestamp(t).isoformat()\<close> depends on the local time zone and
  \<open>str\<close> of a bytes object on the interpreter: both are parameters. The packet is the one
  the event refers to, as it is when \<open>dump\<close> is called.
\<close>

record printers =
  isoformat :: "int \<Rightarrow> ustring"
  str_bytes :: "bytes \<Rightarrow> ustring"

definition str_bool :: "bool \<Rightarrow> string" where
  "str_bool b = (if b then ''True'' else ''False'')"

definition str_pyvalue :: "printers \<Rightarrow> pyvalue \<Rightarrow> ustring" where
  "str_pyvalue pr v = (case v of Str t \<Rightarrow> t | Bytes b \<Rightarrow> str_bytes pr b)"

definition BinLogEvent_dump ::
  "printers \<Rightarrow> string \<Rightarrow> ('tm, 'cc, 'z) BinLogEvent_scheme \<Rightarrow> packet \<Rightarrow> ustring list
     \<Rightarrow> ustring list" where
  "BinLogEvent_dump pr name e p own_lines =
     [ascii (''=== '' @ name @ '' ===''),
      ascii ''Date: '' @ isoformat pr (timestamp e),
      ascii (''Log position: '' @ fmt_d (log_pos p)),
      ascii (''Event size: '' @ fmt_d (event_size e)),
      ascii (''Read bytes: '' @ fmt_d (read_bytes p))]
     @ own_lines @ [[]]"

definition RotateEvent_dump :: "('tm, 'cc) RotateEvent \<Rightarrow> ustring list" where
  "RotateEvent_dump e =
     [ascii ''=== RotateEvent ==='',
      ascii (''Position: '' @ fmt_d (position e)),
      ascii ''Next binlog file: '' @ (case next_binlog e of None \<Rightarrow> ascii ''None'' | Some n \<Rightarrow> n),
      []]"

definition FormatDescriptionEvent_dump :: "('tm, 'cc) FormatDescriptionEvent \<Rightarrow> ustring list" where
  "FormatDescriptionEvent_dump e =
     [ascii ''=== FormatDescriptionEvent ==='',
      ascii (''Binlog Version: '' @ fmt_d (binlog_version e)),
      ascii ''Server Version: '' @ server_version e,
      []]"

text \<open>The lines of each class's \<open>_dump\<close>.\<close>

fun own_dump :: "printers \<Rightarrow> ('tm, 'cc) event \<Rightarrow> ustring list" where
  "own_dump pr (Gtid e) =
     [ascii (''Commit: '' @ str_bool (commit_flag e)),
      ascii (''GTID_NEXT: '' @ gtid e)]"
| "own_dump pr (Xid e) = [ascii (''Transaction ID: '' @ fmt_d (xid e))]"
| "own_dump pr (HeartbeatLog e) = [ascii ''Current binlog: '' @ ident e]"
| "own_dump pr (Query e) =
     [ascii ''Schema: '' @ str_bytes pr (schema e),
      ascii (''Execution time: '' @ fmt_d (execution_time e)),
      ascii ''Query: '' @ str_pyvalue pr (query e)]"
| "own_dump pr (BeginLoadQuery e) =
     [ascii (''File id: '' @ fmt_d (file_id e)),
      ascii ''Block data: '' @ str_bytes pr (block_data e)]"
| "own_dump pr (ExecuteLoadQuery e) =
     [ascii (''Slave proxy id: '' @ fmt_d (x_slave_proxy_id e)),
      ascii (''Execution time: '' @ fmt_d (x_execution_time e)),
      ascii (''Schema length: '' @ fmt_d (x_schema_length e)),
      ascii (''Error code: '' @ fmt_d (x_error_code e)),
      ascii (''Status vars length: '' @ fmt_d (x_status_vars_length e)),
      ascii (''File id: '' @ fmt_d (x_file_id e)),
      ascii (''Start pos: '' @ fmt_d (x_start_pos e)),
      ascii (''End pos: '' @ fmt_d (x_end_pos e)),
      ascii (''Dup handling flags: '' @ fmt_d (x_dup_handling_flags e))]"
| "own_dump pr (Intvar e) =
     [ascii (''type: '' @ fmt_d (intvar_type e)),
      ascii (''Value: '' @ fmt_d (intvar_value e))]"
| "own_dump pr e = []"

fun dump :: "printers \<Rightarrow> ('tm, 'cc) event \<Rightarrow> packet \<Rightarrow> ustring list" where
  "dump pr (Rotate e) p = RotateEvent_dump e"
| "dump pr (FormatDescription e) p = FormatDescriptionEvent_dump e"
| "dump pr e p = BinLogEvent_dump pr (class_name e) (envelope e) p (own_dump pr e)"

section \<open>Notions used in the statements\<close>

text \<open>
  \<open>consumed p p' k\<close>: the packet \<open>p'\<close> is \<open>p\<close> after \<open>k\<close> bytes have been read or skipped,
  nothing else changed.
\<close>

definition consumed :: "packet \<Rightarrow> packet \<Rightarrow> int \<Rightarrow> bool" where
  "consumed p p' k =
     (0 \<le> k \<and> k \<le> int (length (data p)) \<and> data p' = drop (nat k) (data p)
      \<and> read_bytes p' = read_bytes p + k \<and> pkt_event_size p' = pkt_event_size p
      \<and> pkt_event_type p' = pkt_event_type p \<and> pkt_timestamp p' = pkt_timestamp p
      \<and> log_pos p' = log_pos p)"

text \<open>The bytes a decode consumed, when it succeeded.\<close>

definition bytes_consumed :: "packet \<Rightarrow> error + ('e \<times> packet) \<Rightarrow> int option" where
  "bytes_consumed p r =
     (case r of Inl e \<Rightarrow> None | Inr (e, p') \<Rightarrow> Some (read_bytes p' - read_bytes p))"

text \<open>
  The number of bytes the decoder of each class reads and skips: the declared size for
  the classes that read a trailing field of computed length or skip the event, a constant
  for the classes of fixed layout.
\<close>

fun consumption :: "externals \<Rightarrow> packet \<Rightarrow> int \<Rightarrow> ('tm, 'cc) event \<Rightarrow> int" where
  "consumption x p es (Gtid e) = 25"
| "consumption x p es (Rotate e) = es"
| "consumption x p es (FormatDescription e) =
     (if is_checksum_supported x (server_version e) then pkt_event_size p - 23 else 52)"
| "consumption x p es (Stop e) = 0"
| "consumption x p es (Xid e) = 8"
| "consumption x p es (HeartbeatLog e) = es"
| "consumption x p es (Query e) = es"
| "consumption x p es (BeginLoadQuery e) = es"
| "consumption x p es (ExecuteLoadQuery e) = 26"
| "consumption x p es (Intvar e) = 5"
| "consumption x p es (NotImplemented e) = es"

text \<open>The keyword arguments at their defaults, as \<open>BinLogEvent.__init__\<close> declares them.\<close>

definition default_kwargs :: kwargs where
  "default_kwargs =
     \<lparr>only_tables = None, ignored_tables = None, only_schemas = None, ignored_schemas = None,
      freeze_schema = False, kw_fail_on_table_metadata_unavailable = False\<rparr>"

text \<open>Values for the examples: a fresh packet over given bytes, and capabilities that
  support no checksum, detect no encoding and know no codec.\<close>

definition packet_of :: "bytes \<Rightarrow> packet" where
  "packet_of bs =
     \<lparr>data = bs, read_bytes = 0, pkt_event_type = 0, pkt_timestamp = 0,
      pkt_event_size = int (length bs) + 19, log_pos = 4\<rparr>"

definition no_externals :: externals where
  "no_externals =
     \<lparr>is_checksum_supported = (\<lambda>v. False), detect = (\<lambda>q. None), codecs = (\<lambda>n. None)\<rparr>"

text \<open>The ASCII bytes of a literal, \<open>b"..."\<close>.\<close>

definition ascii_bytes :: "string \<Rightarrow> bytes" where
  "ascii_bytes s = map of_char s"

text \<open>
  Example payloads. A GtidEvent with the commit flag set, the source id
  \<open>3e11fa47-71ca-11e1-9e33-c80aa9429562\<close> and transaction number 23. A
  FormatDescriptionEvent of a server \<open>5.6.24-log\<close>: binlog version 4, the version padded
  to 50 bytes, three more bytes, the algorithm byte 1 and a four-byte checksum.
\<close>

definition gtid_example :: bytes where
  "gtid_example =
     [1,
      0x3e, 0x11, 0xfa, 0x47, 0x71, 0xca, 0x11, 0xe1,
      0x9e, 0x33, 0xc8, 0x0a, 0xa9, 0x42, 0x95, 0x62,
      23, 0, 0, 0, 0, 0, 0, 0]"


text \<open>
  The GTID text as the specification words it: the hexadecimal digits of the source id
  split into groups of lengths 8, 4, 4, 4 and 12, joined by hyphens, then a colon and the
  decimal transaction number. \<open>decimal_value\<close> reads a string of decimal digits back.
\<close>

fun split_groups :: "nat list \<Rightarrow> 'a list \<Rightarrow> 'a list list" where
  "split_groups [] xs = []"
| "split_groups (n # ns) xs = take n xs # split_groups ns (drop n xs)"

fun join_with :: "'a list \<Rightarrow> 'a list list \<Rightarrow> 'a list" where
  "join_with sep [] = []"
| "join_with sep [x] = x"
| "join_with sep (x # y # ys) = x @ sep @ join_with sep (y # ys)"

definition lower_hex :: "char \<Rightarrow> bool" where
  "lower_hex c = (c \<in> set ''0123456789abcdef'')"

definition decimal_value :: "string \<Rightarrow> nat" where
  "decimal_value s = foldl (\<lambda>a c. 10 * a + (of_char c - 48)) 0 s"

definition gtid_text :: "bytes \<Rightarrow> int \<Rightarrow> string" where
  "gtid_text source_id transaction_no =
     join_with ''-'' (split_groups [8, 4, 4, 4, 12] (hexlify source_id)) @ '':''
       @ fmt_d transaction_no"

text \<open>An event with the stored flag \<open>_fail_on_table_metadata_unavailable\<close> replaced.\<close>

fun store_flag :: "bool \<Rightarrow> ('tm, 'cc) event \<Rightarrow> ('tm, 'cc) event" where
  "store_flag b (Gtid e) = Gtid (e\<lparr>fail_on_table_metadata_unavailable := b\<rparr>)"
| "store_flag b (Rotate e) = Rotate (e\<lparr>fail_on_table_metadata_unavailable := b\<rparr>)"
| "store_flag b (FormatDescription e) =
     FormatDescription (e\<lparr>fail_on_table_metadata_unavailable := b\<rparr>)"
| "store_flag b (Stop e) = Stop (e\<lparr>fail_on_table_metadata_unavailable := b\<rparr>)"
| "store_flag b (Xid e) = Xid (e\<lparr>fail_on_table_metadata_unavailable := b\<rparr>)"
| "store_flag b (HeartbeatLog e) = HeartbeatLog (e\<lparr>fail_on_table_metadata_unavailable := b\<rparr>)"
| "store_flag b (Query e) = Query (e\<lparr>fail_on_table_metadata_unavailable := b\<rparr>)"
| "store_flag b (BeginLoadQuery e) =
     BeginLoadQuery (e\<lparr>fail_on_table_metadata_unavailable := b\<rparr>)"
| "store_flag b (ExecuteLoadQuery e) =
     ExecuteLoadQuery (e\<lparr>fail_on_table_metadata_unavailable := b\<rparr>)"
| "store_flag b (Intvar e) = Intvar (e\<lparr>fail_on_table_metadata_unavailable := b\<rparr>)"
| "store_flag b (NotImplemented e) =
     NotImplemented (e\<lparr>fail_on_table_metadata_unavailable := b\<rparr>)"

text \<open>
  A QueryEvent payload: proxy id 1, execution time 0, schema length 4, error code 0, two
  bytes of status variables, the schema \<open>test\<close>, the separator and the query \<open>BEGIN\<close>; and
  a codec registry that knows Latin-1 alone.
\<close>

definition query_example :: bytes where
  "query_example =
     [1, 0, 0, 0] @ [0, 0, 0, 0] @ [4] @ [0, 0] @ [2, 0] @ [0, 3] @ ascii_bytes ''test'' @ [0]
       @ ascii_bytes ''BEGIN''"

definition latin1_registry :: registry where
  "latin1_registry name =
     (if name = ''ISO-8859-1'' then Some (\<lambda>bs. Some (map unat bs)) else None)"

text \<open>
  For the layout of the dump: a line that starts with a given label, a line of the shape
  \<open>Key: value\<close> (it holds a colon followed by a space), and the two classes that define a
  \<open>dump\<close> of their own. Then printers and events for the examples.
\<close>

definition starts_with :: "ustring \<Rightarrow> string \<Rightarrow> bool" where
  "starts_with line s = (take (length s) line = ascii s)"

fun key_value :: "ustring \<Rightarrow> bool" where
  "key_value (a # b # r) = ((a = 58 \<and> b = 32) \<or> key_value (b # r))"
| "key_value r = False"

definition own_override :: "('tm, 'cc) event \<Rightarrow> bool" where
  "own_override e = (case e of Rotate r \<Rightarrow> True | FormatDescription f \<Rightarrow> True | _ \<Rightarrow> False)"

definition example_printers :: printers where
  "example_printers =
     \<lparr>isoformat = (\<lambda>t. ascii ''1970-01-01T00:00:00''), str_bytes = (\<lambda>b. ascii ''b'' @ map unat b)\<rparr>"

definition rotate_event_example :: "(unit, unit) RotateEvent" where
  "rotate_event_example =
     BinLogEvent.extend (BinLogEvent_init (packet_of []) 24 () () default_kwargs)
       (RotateEvent.fields 4 (Some (ascii ''mysql-bin.000002'')))"

definition xid_event_example :: "(unit, unit) XidEvent" where
  "xid_event_example =
     BinLogEvent.extend (BinLogEvent_init (packet_of []) 8 () () default_kwargs)
       (XidEvent.fields 7)"

text \<open>
  The file name in the trailer of a RotateEvent, in the specification's words. A byte
  string is shaped like a name when it is one or more bytes other than the line feed, a
  dot and six digits; loosely so when the bytes before the dot may be any. A match at
  \<open>i\<close> of length \<open>n\<close> is the first one when nothing matches at an earlier position and
  nothing longer matches at \<open>i\<close>. The trailer is what follows the first eight bytes, up to
  the declared size. Then three example payloads: a name with padding, no name, and a
  line feed before the dot.
\<close>

definition name_shaped :: "bytes \<Rightarrow> bool" where
  "name_shaped s =
     (8 \<le> length s \<and> list_all any_char (take (length s - 7) s)
      \<and> s ! (length s - 7) = 0x2E \<and> list_all is_digit (drop (length s - 6) s))"

definition loosely_name_shaped :: "bytes \<Rightarrow> bool" where
  "loosely_name_shaped s =
     (8 \<le> length s \<and> s ! (length s - 7) = 0x2E \<and> list_all is_digit (drop (length s - 6) s))"

definition matches_at :: "bytes \<Rightarrow> nat \<Rightarrow> nat \<Rightarrow> bool" where
  "matches_at bs i n = (i + n \<le> length bs \<and> name_shaped (take n (drop i bs)))"

definition first_match :: "bytes \<Rightarrow> nat \<Rightarrow> nat \<Rightarrow> bool" where
  "first_match bs i n =
     (matches_at bs i n
      \<and> (\<forall>j m. j < i \<longrightarrow> \<not> matches_at bs j m)
      \<and> (\<forall>m. matches_at bs i m \<longrightarrow> m \<le> n))"

definition trailer :: "packet \<Rightarrow> int \<Rightarrow> bytes" where
  "trailer p es = take (nat (es - 8)) (drop 8 (data p))"

definition rotate_example :: bytes where
  "rotate_example = [4, 0, 0, 0, 0, 0, 0, 0] @ ascii_bytes ''mysql-bin.000002'' @ [0, 0]"

definition rotate_nameless_example :: bytes where
  "rotate_nameless_example = [4, 0, 0, 0, 0, 0, 0, 0] @ ascii_bytes ''mysql-bin'' @ [0, 0]"

definition rotate_newline_example :: bytes where
  "rotate_newline_example = [4, 0, 0, 0, 0, 0, 0, 0] @ [0x0A] @ ascii_bytes ''.000001''"

section \<open>Basic facts about the packet and the error monad\<close>

lemma bnd_Inr [simp]: "bnd (Inr x) f = f x"
  by (simp add: bnd_def)

lemma bnd_Inl [simp]: "bnd (Inl e) f = Inl e"
  by (simp add: bnd_def)

lemma bnd_Inr_iff: "(bnd m f = Inr y) = (\<exists>x. m = Inr x \<and> f x = Inr y)"
  by (cases m) simp_all

lemma bnd_InrE:
  assumes "bnd m f = Inr y"
  obtains x where "m = Inr x" and "f x = Inr y"
  using assms by (auto simp: bnd_Inr_iff)

lemma wrap_InrE:
  assumes "wrap C r = Inr (e, p')"
  obtains x where "r = Inr (x, p')" and "e = C x"
  using assms by (auto simp: wrap_def split: sum.splits)

lemma consumed_trans:
  "consumed p p' a \<Longrightarrow> consumed p' p'' b \<Longrightarrow> consumed p p'' (a + b)"
  by (auto simp: consumed_def nat_add_distrib add.commute)

lemma consumed_refl: "consumed p p 0"
  by (simp add: consumed_def)

lemma read_ok:
  "0 \<le> n \<Longrightarrow> n \<le> int (length (data p)) \<Longrightarrow>
     read n p = Inr (take (nat n) (data p),
                     p\<lparr>data := drop (nat n) (data p), read_bytes := read_bytes p + n\<rparr>)"
  by (simp add: read_def)

lemma read_negative: "n < 0 \<Longrightarrow> read n p = Inl TruncatedPacket"
  by (simp add: read_def)

lemma read_consumed: "read n p = Inr (bs, p') \<Longrightarrow> consumed p p' n"
  by (auto simp: read_def consumed_def split: if_splits)

lemma read_bytes_of:
  "read n p = Inr (bs, p') \<Longrightarrow> bs = take (nat n) (data p) \<and> int (length bs) = n"
  by (auto simp: read_def split: if_splits)

lemma advance_consumed: "advance n p = Inr p' \<Longrightarrow> consumed p p' n"
  by (auto simp: advance_def consumed_def split: if_splits)

lemma read_uint_consumed: "read_uint n p = Inr (v, p') \<Longrightarrow> consumed p p' (int n)"
  by (auto simp: read_uint_def elim!: bnd_InrE dest!: read_consumed)

lemma read_uint_value: "read_uint n p = Inr (v, p') \<Longrightarrow> v = le_uint (take n (data p))"
  by (auto simp: read_uint_def elim!: bnd_InrE dest!: read_bytes_of)

lemma read_uint8_consumed: "read_uint8 p = Inr (v, p') \<Longrightarrow> consumed p p' 1"
  using read_uint_consumed [of 1 p v p'] by (simp add: read_uint8_def)

lemma read_uint16_consumed: "read_uint16 p = Inr (v, p') \<Longrightarrow> consumed p p' 2"
  using read_uint_consumed [of 2 p v p'] by (simp add: read_uint16_def)

lemma read_uint32_consumed: "read_uint32 p = Inr (v, p') \<Longrightarrow> consumed p p' 4"
  using read_uint_consumed [of 4 p v p'] by (simp add: read_uint32_def)

lemma unpack_le_Inr: "unpack_le n bs = Inr v \<Longrightarrow> v = le_uint bs \<and> length bs = n"
  by (auto simp: unpack_le_def split: if_splits)

lemma byte2int_take1: "bs \<noteq> [] \<Longrightarrow> byte2int (take (Suc 0) bs) = Inr (uint (hd bs))"
  by (cases bs) (simp_all add: byte2int_def)

lemmas eval_simps =
  read_uint8_def read_uint16_def read_uint32_def read_uint_def read_def advance_def wrap_def
  Let_def packet_of_def default_kwargs_def no_externals_def

lemma utf8_decode_examples:
  "utf8_decode [0x61, 0xC3, 0xA9] = Some [97, 233]"
  "utf8_decode [0xE2, 0x82, 0xAC] = Some [8364]"
  "utf8_decode [0xF0, 0x9F, 0x98, 0x80] = Some [128512]"
  "utf8_decode [0xC0, 0x80] = None"
  "utf8_decode [0xED, 0xA0, 0x80] = None"
  "utf8_decode [0xE9] = None"
  "utf8_decode [0xF4, 0x90, 0x80, 0x80] = None"
  by (simp_all add: cont_byte_def)

lemma read_table_id_Inr:
  assumes "read_table_id p = Inr (v, p')"
  shows "consumed p p' 6 \<and> v = le_uint (take 6 (data p) @ [0, 0])"
proof -
  from assms obtain bs where r: "read 6 p = Inr (bs, p')"
    and u: "unpack_le 8 (bs @ [0, 0]) = Inr v"
    by (auto simp: read_table_id_def elim!: bnd_InrE)
  from read_consumed [OF r] read_bytes_of [OF r] unpack_le_Inr [OF u] show ?thesis
    by simp
qed

section \<open>The envelope of a decoded event\<close>

lemma GtidEvent_envelope:
  "GtidEvent_init p es tm cc kw = Inr (e, p') \<Longrightarrow>
     BinLogEvent.truncate e = BinLogEvent_init p es tm cc kw"
  by (auto simp: GtidEvent_init_def Let_def BinLogEvent.defs GtidEvent.defs elim!: bnd_InrE)

lemma RotateEvent_envelope:
  "RotateEvent_init p es tm cc kw = Inr (e, p') \<Longrightarrow>
     BinLogEvent.truncate e = BinLogEvent_init p es tm cc kw"
  by (auto simp: RotateEvent_init_def Let_def BinLogEvent.defs RotateEvent.defs
      elim!: bnd_InrE split: sum.splits if_splits)

lemma FormatDescriptionEvent_envelope:
  "FormatDescriptionEvent_init s p es tm cc kw = Inr (e, p') \<Longrightarrow>
     BinLogEvent.truncate e = BinLogEvent_init p es tm cc kw"
  by (auto simp: FormatDescriptionEvent_init_def Let_def BinLogEvent.defs
      FormatDescriptionEvent.defs elim!: bnd_InrE split: if_splits)

lemma XidEvent_envelope:
  "XidEvent_init p es tm cc kw = Inr (e, p') \<Longrightarrow>
     BinLogEvent.truncate e = BinLogEvent_init p es tm cc kw"
  by (auto simp: XidEvent_init_def Let_def BinLogEvent.defs XidEvent.defs elim!: bnd_InrE)

lemma HeartbeatLogEvent_envelope:
  "HeartbeatLogEvent_init p es tm cc kw = Inr (e, p') \<Longrightarrow>
     BinLogEvent.truncate e = BinLogEvent_init p es tm cc kw"
  by (auto simp: HeartbeatLogEvent_init_def Let_def BinLogEvent.defs HeartbeatLogEvent.defs
      elim!: bnd_InrE)

lemma QueryEvent_envelope:
  "QueryEvent_init d c p es tm cc kw = Inr (e, p') \<Longrightarrow>
     BinLogEvent.truncate e = BinLogEvent_init p es tm cc kw"
  by (auto simp: QueryEvent_init_def Let_def BinLogEvent.defs QueryEvent.defs elim!: bnd_InrE)

lemma BeginLoadQueryEvent_envelope:
  "BeginLoadQueryEvent_init p es tm cc kw = Inr (e, p') \<Longrightarrow>
     BinLogEvent.truncate e = BinLogEvent_init p es tm cc kw"
  by (auto simp: BeginLoadQueryEvent_init_def Let_def BinLogEvent.defs BeginLoadQueryEvent.defs
      elim!: bnd_InrE)

lemma ExecuteLoadQueryEvent_envelope:
  "ExecuteLoadQueryEvent_init p es tm cc kw = Inr (e, p') \<Longrightarrow>
     BinLogEvent.truncate e = BinLogEvent_init p es tm cc kw"
  by (auto simp: ExecuteLoadQueryEvent_init_def Let_def BinLogEvent.defs
      ExecuteLoadQueryEvent.defs elim!: bnd_InrE)

lemma IntvarEvent_envelope:
  "IntvarEvent_init p es tm cc kw = Inr (e, p') \<Longrightarrow>
     BinLogEvent.truncate e = BinLogEvent_init p es tm cc kw"
  by (auto simp: IntvarEvent_init_def Let_def BinLogEvent.defs IntvarEvent.defs elim!: bnd_InrE)

lemma construct_envelope:
  assumes "construct x v p es tm cc kw = Inr (e, p')"
  shows "envelope e = BinLogEvent_init p es tm cc kw"
proof (cases v)
  case VGtid
  with assms show ?thesis by (auto elim!: wrap_InrE dest: GtidEvent_envelope)
next
  case VRotate
  with assms show ?thesis by (auto elim!: wrap_InrE dest: RotateEvent_envelope)
next
  case VFormatDescription
  with assms show ?thesis by (auto elim!: wrap_InrE dest: FormatDescriptionEvent_envelope)
next
  case VStop
  with assms show ?thesis by (auto elim!: wrap_InrE simp: StopEvent_init_def)
next
  case VXid
  with assms show ?thesis by (auto elim!: wrap_InrE dest: XidEvent_envelope)
next
  case VHeartbeatLog
  with assms show ?thesis by (auto elim!: wrap_InrE dest: HeartbeatLogEvent_envelope)
next
  case VQuery
  with assms show ?thesis by (auto elim!: wrap_InrE dest: QueryEvent_envelope)
next
  case VBeginLoadQuery
  with assms show ?thesis by (auto elim!: wrap_InrE dest: BeginLoadQueryEvent_envelope)
next
  case VExecuteLoadQuery
  with assms show ?thesis by (auto elim!: wrap_InrE dest: ExecuteLoadQueryEvent_envelope)
next
  case VIntvar
  with assms show ?thesis by (auto elim!: wrap_InrE dest: IntvarEvent_envelope)
next
  case VNotImplemented
  with assms show ?thesis
    by (auto elim!: wrap_InrE bnd_InrE simp: NotImplementedEvent_init_def Let_def)
qed

section \<open>The bytes each decoder consumes\<close>

lemma GtidEvent_consumed:
  assumes "GtidEvent_init p es tm cc kw = Inr (e, p')"
  shows "consumed p p' 25"
proof -
  from assms obtain b p1 s p2 g where
    r: "read 1 p = Inr (b, p1)" "read 16 p1 = Inr (s, p2)" "read 8 p2 = Inr (g, p')"
    by (auto simp: GtidEvent_init_def Let_def elim!: bnd_InrE)
  note c = read_consumed [OF r(1)]
  note c = consumed_trans [OF c read_consumed [OF r(2)]]
  note c = consumed_trans [OF c read_consumed [OF r(3)]]
  then show ?thesis by simp
qed

lemma RotateEvent_consumed:
  assumes "RotateEvent_init p es tm cc kw = Inr (e, p')"
  shows "consumed p p' es"
proof -
  from assms obtain b p1 r where
    r: "read 8 p = Inr (b, p1)" "read (es - 8) p1 = Inr (r, p')"
    by (auto simp: RotateEvent_init_def Let_def elim!: bnd_InrE split: sum.splits if_splits)
  note c = read_consumed [OF r(1)]
  note c = consumed_trans [OF c read_consumed [OF r(2)]]
  then show ?thesis by simp
qed

lemma FormatDescriptionEvent_Inr:
  assumes "FormatDescriptionEvent_init ok p es tm cc kw = Inr (e, p')"
  shows "\<exists>b p1 v p2. read 2 p = Inr (b, p1) \<and> read 50 p1 = Inr (v, p2)
           \<and> decode_default (rstrip_nul v) = Inr (server_version e)
           \<and> unpack_le 2 b = Inr (binlog_version e)
           \<and> (if ok (server_version e)
               then \<exists>sk p3 a alg. read (pkt_event_size p2 - 19 - 2 - 50 - 5) p2 = Inr (sk, p3)
                      \<and> read 1 p3 = Inr (a, p') \<and> unpack_b a = Inr alg
                      \<and> has_checksum e = (alg = 1)
               else p' = p2 \<and> \<not> has_checksum e)"
  using assms
  by (auto simp: FormatDescriptionEvent_init_def Let_def BinLogEvent.defs
      FormatDescriptionEvent.defs elim!: bnd_InrE split: if_splits)

lemma FormatDescriptionEvent_consumed:
  assumes "FormatDescriptionEvent_init ok p es tm cc kw = Inr (e, p')"
  shows "consumed p p' (if ok (server_version e) then pkt_event_size p - 23 else 52)"
proof -
  from FormatDescriptionEvent_Inr [OF assms] obtain b p1 v p2 where
    r: "read 2 p = Inr (b, p1)" "read 50 p1 = Inr (v, p2)"
    and rest: "if ok (server_version e)
               then \<exists>sk p3 a alg. read (pkt_event_size p2 - 19 - 2 - 50 - 5) p2 = Inr (sk, p3)
                      \<and> read 1 p3 = Inr (a, p') \<and> unpack_b a = Inr alg
                      \<and> has_checksum e = (alg = 1)
               else p' = p2 \<and> \<not> has_checksum e"
    by blast
  note c = consumed_trans [OF read_consumed [OF r(1)] read_consumed [OF r(2)]]
  show ?thesis
  proof (cases "ok (server_version e)")
    case False
    with rest c show ?thesis by simp
  next
    case True
    with rest obtain sk p3 a where
      r': "read (pkt_event_size p2 - 19 - 2 - 50 - 5) p2 = Inr (sk, p3)" "read 1 p3 = Inr (a, p')"
      by auto
    have "pkt_event_size p2 = pkt_event_size p"
      using c by (simp add: consumed_def)
    with r' have r'': "read (pkt_event_size p - 19 - 2 - 50 - 5) p2 = Inr (sk, p3)" by simp
    note c = consumed_trans [OF c read_consumed [OF r'']]
    note c = consumed_trans [OF c read_consumed [OF r'(2)]]
    with True show ?thesis by simp
  qed
qed

lemma StopEvent_consumed:
  "StopEvent_init p es tm cc kw = Inr (e, p') \<Longrightarrow> consumed p p' 0"
  by (auto simp: StopEvent_init_def consumed_refl)

lemma XidEvent_consumed:
  "XidEvent_init p es tm cc kw = Inr (e, p') \<Longrightarrow> consumed p p' 8"
  by (auto simp: XidEvent_init_def Let_def elim!: bnd_InrE dest: read_consumed)

lemma HeartbeatLogEvent_consumed:
  "HeartbeatLogEvent_init p es tm cc kw = Inr (e, p') \<Longrightarrow> consumed p p' es"
  by (auto simp: HeartbeatLogEvent_init_def Let_def elim!: bnd_InrE dest: read_consumed)

lemma QueryEvent_consumed:
  assumes "QueryEvent_init d c p es tm cc kw = Inr (e, p')"
  shows "consumed p p' es"
proof -
  from assms obtain spid p1 et p2 b p3 sl ec p4 svl p5 sv p6 sch p7 p8 q where
    r: "read_uint32 p = Inr (spid, p1)" "read_uint32 p1 = Inr (et, p2)" "read 1 p2 = Inr (b, p3)"
      "read_uint16 p3 = Inr (ec, p4)" "read_uint16 p4 = Inr (svl, p5)" "read svl p5 = Inr (sv, p6)"
      "read sl p6 = Inr (sch, p7)" "advance 1 p7 = Inr p8"
      "read (es - 13 - svl - sl - 1) p8 = Inr (q, p')"
    by (auto simp: QueryEvent_init_def Let_def elim!: bnd_InrE)
  note c = read_uint32_consumed [OF r(1)]
  note c = consumed_trans [OF c read_uint32_consumed [OF r(2)]]
  note c = consumed_trans [OF c read_consumed [OF r(3)]]
  note c = consumed_trans [OF c read_uint16_consumed [OF r(4)]]
  note c = consumed_trans [OF c read_uint16_consumed [OF r(5)]]
  note c = consumed_trans [OF c read_consumed [OF r(6)]]
  note c = consumed_trans [OF c read_consumed [OF r(7)]]
  note c = consumed_trans [OF c advance_consumed [OF r(8)]]
  note c = consumed_trans [OF c read_consumed [OF r(9)]]
  then show ?thesis by simp
qed

lemma BeginLoadQueryEvent_consumed:
  assumes "BeginLoadQueryEvent_init p es tm cc kw = Inr (e, p')"
  shows "consumed p p' es"
proof -
  from assms obtain f p1 d where
    r: "read_uint32 p = Inr (f, p1)" "read (es - 4) p1 = Inr (d, p')"
    by (auto simp: BeginLoadQueryEvent_init_def Let_def elim!: bnd_InrE)
  note c = consumed_trans [OF read_uint32_consumed [OF r(1)] read_consumed [OF r(2)]]
  then show ?thesis by simp
qed

lemma ExecuteLoadQueryEvent_consumed:
  assumes "ExecuteLoadQueryEvent_init p es tm cc kw = Inr (e, p')"
  shows "consumed p p' 26"
proof -
  from assms obtain spid p1 et p2 sl p3 ec p4 svl p5 f p6 sp p7 ep p8 dh where
    r: "read_uint32 p = Inr (spid, p1)" "read_uint32 p1 = Inr (et, p2)"
      "read_uint8 p2 = Inr (sl, p3)" "read_uint16 p3 = Inr (ec, p4)"
      "read_uint16 p4 = Inr (svl, p5)" "read_uint32 p5 = Inr (f, p6)"
      "read_uint32 p6 = Inr (sp, p7)" "read_uint32 p7 = Inr (ep, p8)"
      "read_uint8 p8 = Inr (dh, p')"
    by (auto simp: ExecuteLoadQueryEvent_init_def Let_def elim!: bnd_InrE)
  note c = read_uint32_consumed [OF r(1)]
  note c = consumed_trans [OF c read_uint32_consumed [OF r(2)]]
  note c = consumed_trans [OF c read_uint8_consumed [OF r(3)]]
  note c = consumed_trans [OF c read_uint16_consumed [OF r(4)]]
  note c = consumed_trans [OF c read_uint16_consumed [OF r(5)]]
  note c = consumed_trans [OF c read_uint32_consumed [OF r(6)]]
  note c = consumed_trans [OF c read_uint32_consumed [OF r(7)]]
  note c = consumed_trans [OF c read_uint32_consumed [OF r(8)]]
  note c = consumed_trans [OF c read_uint8_consumed [OF r(9)]]
  then show ?thesis by simp
qed

lemma IntvarEvent_consumed:
  assumes "IntvarEvent_init p es tm cc kw = Inr (e, p')"
  shows "consumed p p' 5"
proof -
  from assms obtain t p1 v where
    r: "read_uint8 p = Inr (t, p1)" "read_uint32 p1 = Inr (v, p')"
    by (auto simp: IntvarEvent_init_def Let_def elim!: bnd_InrE)
  note c = consumed_trans [OF read_uint8_consumed [OF r(1)] read_uint32_consumed [OF r(2)]]
  then show ?thesis by simp
qed

lemma NotImplementedEvent_consumed:
  "NotImplementedEvent_init p es tm cc kw = Inr (e, p') \<Longrightarrow> consumed p p' es"
  by (auto simp: NotImplementedEvent_init_def Let_def elim!: bnd_InrE dest: advance_consumed)



lemma construct_consumed:
  assumes "construct x v p es tm cc kw = Inr (e, p')"
  shows "consumed p p' (consumption x p es e)"
proof (cases v)
  case VGtid
  with assms show ?thesis by (auto elim!: wrap_InrE dest: GtidEvent_consumed)
next
  case VRotate
  with assms show ?thesis by (auto elim!: wrap_InrE dest: RotateEvent_consumed)
next
  case VFormatDescription
  with assms show ?thesis
    by (auto elim!: wrap_InrE dest: FormatDescriptionEvent_consumed split: if_splits)
next
  case VStop
  with assms show ?thesis by (auto elim!: wrap_InrE dest: StopEvent_consumed)
next
  case VXid
  with assms show ?thesis by (auto elim!: wrap_InrE dest: XidEvent_consumed)
next
  case VHeartbeatLog
  with assms show ?thesis by (auto elim!: wrap_InrE dest: HeartbeatLogEvent_consumed)
next
  case VQuery
  with assms show ?thesis by (auto elim!: wrap_InrE dest: QueryEvent_consumed)
next
  case VBeginLoadQuery
  with assms show ?thesis by (auto elim!: wrap_InrE dest: BeginLoadQueryEvent_consumed)
next
  case VExecuteLoadQuery
  with assms show ?thesis by (auto elim!: wrap_InrE dest: ExecuteLoadQueryEvent_consumed)
next
  case VIntvar
  with assms show ?thesis by (auto elim!: wrap_InrE dest: IntvarEvent_consumed)
next
  case VNotImplemented
  with assms show ?thesis by (auto elim!: wrap_InrE dest: NotImplementedEvent_consumed)
qed

section \<open>Claims about the bytes consumed and the envelope\<close>

text \<open>
  C3, as amended. After a successful decode the bytes consumed by reads and skips are
  the declared event size for RotateEvent, HeartbeatLogEvent, QueryEvent,
  BeginLoadQueryEvent and NotImplementedEvent. The decoders of fixed layout consume a
  constant number of bytes whatever the declared size: GtidEvent 25, XidEvent 8,
  IntvarEvent 5, ExecuteLoadQueryEvent 26 and StopEvent none; FormatDescriptionEvent
  consumes 52 bytes when the policy reports no checksum support and the packet's total
  event size less 23 otherwise. The packet is left at the next header only where that
  number is the declared size.
\<close>

theorem consumed_bytes_by_class:
  assumes "construct x v p es tm cc kw = Inr (e, p')"
  shows "read_bytes p' = read_bytes p + consumption x p es e
         \<and> data p' = drop (nat (consumption x p es e)) (data p)
         \<and> 0 \<le> consumption x p es e \<and> consumption x p es e \<le> int (length (data p))"
  using construct_consumed [OF assms] by (simp add: consumed_def)

text \<open>An ExecuteLoadQueryEvent of declared size 30 over 30 bytes: 26 bytes are consumed,
  four are left unread.\<close>

theorem consumed_bytes_by_class_counterexample:
  "bytes_consumed (packet_of (replicate 30 0))
     (construct no_externals VExecuteLoadQuery (packet_of (replicate 30 0)) 30 () ()
        default_kwargs)
   = Some 26"
  by (simp add: ExecuteLoadQueryEvent_init_def bytes_consumed_def eval_simps)

theorem consumed_bytes_by_class_witness:
  "bytes_consumed (packet_of (replicate 30 0))
     (construct no_externals VBeginLoadQuery (packet_of (replicate 30 0)) 30 () ()
        default_kwargs)
   = Some 30"
proof -
  obtain e p' where
    h: "construct no_externals VBeginLoadQuery (packet_of (replicate 30 0)) 30 () ()
          default_kwargs = Inr (e :: (unit, unit) event, p')"
    by (simp add: BeginLoadQueryEvent_init_def eval_simps)
  from h have "\<exists>b. e = BeginLoadQuery b"
    by (auto elim!: wrap_InrE)
  with consumed_bytes_by_class [OF h] h show ?thesis
    by (auto simp add: bytes_consumed_def)
qed

text \<open>
  C10. Every event that a decoder of this module constructs has its \<open>_processed\<close> flag and
  its \<open>complete\<close> flag set to true: no decoder sets either to false.
\<close>

theorem flags_set_by_every_decoder:
  assumes "construct x v p es tm cc kw = Inr (e, p')"
  shows "processed (envelope e) \<and> complete (envelope e)"
  using construct_envelope [OF assms] by (simp add: BinLogEvent_init_def)

theorem flags_set_by_every_decoder_witness:
  "map_sum id (\<lambda>(e, p'). (processed (envelope e), complete (envelope e)))
     (construct no_externals VIntvar (packet_of [1, 7, 0, 0, 0]) 5 () () default_kwargs)
   = Inr (True, True)"
proof -
  obtain e p' where
    h: "construct no_externals VIntvar (packet_of [1, 7, 0, 0, 0]) 5 () () default_kwargs
        = Inr (e :: (unit, unit) event, p')"
    by (simp add: IntvarEvent_init_def eval_simps)
  with flags_set_by_every_decoder [OF h] show ?thesis
    by simp
qed

section \<open>The decoders of fixed size\<close>

lemma uint_eq_1: "(uint (b :: byte) = 1) = (b = 1)"
  using word_eq_iff_unsigned [of b 1, where ?'a = int] by simp

lemma GtidEvent_total:
  assumes "25 \<le> length (data p)"
  shows "\<exists>e p'. GtidEvent_init p es tm cc kw = Inr (e, p')"
proof -
  from assms have ne: "data p \<noteq> []" by auto
  show ?thesis
    using assms ne
    by (simp add: GtidEvent_init_def Let_def read_ok byte2int_take1 unpack_le_def)
qed

lemma GtidEvent_fields:
  assumes "GtidEvent_init p es tm cc kw = Inr (e, p')"
  shows "commit_flag e = (hd (data p) = 1) \<and> sid e = take 16 (drop 1 (data p))
         \<and> gno e = le_uint (take 8 (drop 17 (data p)))"
proof -
  from assms obtain b p1 c s p2 g n where
    r: "read 1 p = Inr (b, p1)" "byte2int b = Inr c" "read 16 p1 = Inr (s, p2)"
       "read 8 p2 = Inr (g, p')" "unpack_le 8 g = Inr n"
    and e: "e = BinLogEvent.extend (BinLogEvent_init p es tm cc kw) (GtidEvent.fields (c = 1) s n)"
    by (auto simp: GtidEvent_init_def Let_def elim!: bnd_InrE)
  from r(1) have b: "b = take 1 (data p)" "data p1 = drop 1 (data p)" "data p \<noteq> []"
    using read_consumed [OF r(1)] read_bytes_of [OF r(1)] by (auto simp: consumed_def)
  from r(3) have s: "s = take 16 (drop 1 (data p))" "data p2 = drop 17 (data p)"
    using read_consumed [OF r(3)] read_bytes_of [OF r(3)] b by (auto simp: consumed_def)
  from r(4) have g: "g = take 8 (drop 17 (data p))"
    using read_bytes_of [OF r(4)] s by auto
  from r(2) b have c: "c = uint (hd (data p))"
    by (simp add: byte2int_take1)
  have "(c = 1) = (hd (data p) = 1)"
    unfolding c by (rule uint_eq_1)
  with e s g r(5) show ?thesis
    by (simp add: BinLogEvent.defs GtidEvent.defs unpack_le_def split: if_splits)
qed

lemma XidEvent_total:
  "8 \<le> length (data p) \<Longrightarrow> \<exists>e p'. XidEvent_init p es tm cc kw = Inr (e, p')"
  by (simp add: XidEvent_init_def Let_def read_ok unpack_le_def)

lemma XidEvent_fields:
  assumes "XidEvent_init p es tm cc kw = Inr (e, p')"
  shows "xid e = le_uint (take 8 (data p))"
proof -
  from assms obtain b p1 n where
    r: "read 8 p = Inr (b, p1)" "unpack_le 8 b = Inr n"
    and e: "e = BinLogEvent.extend (BinLogEvent_init p es tm cc kw) (XidEvent.fields n)"
    by (auto simp: XidEvent_init_def Let_def elim!: bnd_InrE)
  from read_bytes_of [OF r(1)] unpack_le_Inr [OF r(2)] e show ?thesis
    by (simp add: BinLogEvent.defs XidEvent.defs)
qed

lemma IntvarEvent_total:
  "5 \<le> length (data p) \<Longrightarrow> \<exists>e p'. IntvarEvent_init p es tm cc kw = Inr (e, p')"
  by (simp add: IntvarEvent_init_def Let_def read_uint8_def read_uint32_def read_uint_def read_ok)

lemma IntvarEvent_fields:
  assumes "IntvarEvent_init p es tm cc kw = Inr (e, p')"
  shows "intvar_type e = le_uint (take 1 (data p))
         \<and> intvar_value e = le_uint (take 4 (drop 1 (data p)))"
proof -
  from assms obtain t p1 v where
    r: "read_uint8 p = Inr (t, p1)" "read_uint32 p1 = Inr (v, p')"
    and e: "e = BinLogEvent.extend (BinLogEvent_init p es tm cc kw) (IntvarEvent.fields t v)"
    by (auto simp: IntvarEvent_init_def Let_def elim!: bnd_InrE)
  from r(1) have t: "t = le_uint (take 1 (data p))" "data p1 = drop 1 (data p)"
    using read_uint_value [of 1 p t p1] read_uint8_consumed [OF r(1)]
    by (simp_all add: read_uint8_def consumed_def)
  from r(2) have "v = le_uint (take 4 (data p1))"
    using read_uint_value [of 4 p1 v p'] by (simp add: read_uint32_def)
  with t e show ?thesis
    by (simp add: BinLogEvent.defs IntvarEvent.defs)
qed


text \<open>
  C9. Over input that holds the bytes of the event (25 for a GtidEvent, 8 for an XidEvent,
  5 for an IntvarEvent) the decoder succeeds and consumes exactly that many bytes, and
  the decoded fields are determined by the bytes alone: a second decode of the same bytes,
  whatever the counters of the packet, the declared size and the other arguments, gives
  the same field values.
\<close>

theorem fixed_size_events_consume_and_determine:
  "(25 \<le> length (data p) \<and> data q = data p \<longrightarrow>
      (\<exists>e p' e' q'.
         GtidEvent_init p es tm cc kw = Inr (e, p')
         \<and> read_bytes p' = read_bytes p + 25 \<and> data p' = drop 25 (data p)
         \<and> GtidEvent_init q es' tm' cc' kw' = Inr (e', q')
         \<and> commit_flag e' = commit_flag e \<and> sid e' = sid e \<and> gno e' = gno e))
   \<and> (8 \<le> length (data p) \<and> data q = data p \<longrightarrow>
      (\<exists>e p' e' q'.
         XidEvent_init p es tm cc kw = Inr (e, p')
         \<and> read_bytes p' = read_bytes p + 8 \<and> data p' = drop 8 (data p)
         \<and> XidEvent_init q es' tm' cc' kw' = Inr (e', q')
         \<and> xid e' = xid e))
   \<and> (5 \<le> length (data p) \<and> data q = data p \<longrightarrow>
      (\<exists>e p' e' q'.
         IntvarEvent_init p es tm cc kw = Inr (e, p')
         \<and> read_bytes p' = read_bytes p + 5 \<and> data p' = drop 5 (data p)
         \<and> IntvarEvent_init q es' tm' cc' kw' = Inr (e', q')
         \<and> intvar_type e' = intvar_type e \<and> intvar_value e' = intvar_value e))"
proof (intro conjI impI)
  assume a: "25 \<le> length (data p) \<and> data q = data p"
  then obtain e p' where h: "GtidEvent_init p es tm cc kw = Inr (e, p')"
    using GtidEvent_total [of p es tm cc kw] by blast
  from a obtain e' q' where h': "GtidEvent_init q es' tm' cc' kw' = Inr (e', q')"
    using GtidEvent_total [of q es' tm' cc' kw'] by auto
  from GtidEvent_consumed [OF h] GtidEvent_fields [OF h] GtidEvent_fields [OF h'] a h h'
  show "\<exists>e p' e' q'.
         GtidEvent_init p es tm cc kw = Inr (e, p')
         \<and> read_bytes p' = read_bytes p + 25 \<and> data p' = drop 25 (data p)
         \<and> GtidEvent_init q es' tm' cc' kw' = Inr (e', q')
         \<and> commit_flag e' = commit_flag e \<and> sid e' = sid e \<and> gno e' = gno e"
    by (simp add: consumed_def)
next
  assume a: "8 \<le> length (data p) \<and> data q = data p"
  then obtain e p' where h: "XidEvent_init p es tm cc kw = Inr (e, p')"
    using XidEvent_total [of p es tm cc kw] by blast
  from a obtain e' q' where h': "XidEvent_init q es' tm' cc' kw' = Inr (e', q')"
    using XidEvent_total [of q es' tm' cc' kw'] by auto
  from XidEvent_consumed [OF h] XidEvent_fields [OF h] XidEvent_fields [OF h'] a h h'
  show "\<exists>e p' e' q'.
         XidEvent_init p es tm cc kw = Inr (e, p')
         \<and> read_bytes p' = read_bytes p + 8 \<and> data p' = drop 8 (data p)
         \<and> XidEvent_init q es' tm' cc' kw' = Inr (e', q')
         \<and> xid e' = xid e"
    by (simp add: consumed_def)
next
  assume a: "5 \<le> length (data p) \<and> data q = data p"
  then obtain e p' where h: "IntvarEvent_init p es tm cc kw = Inr (e, p')"
    using IntvarEvent_total [of p es tm cc kw] by blast
  from a obtain e' q' where h': "IntvarEvent_init q es' tm' cc' kw' = Inr (e', q')"
    using IntvarEvent_total [of q es' tm' cc' kw'] by auto
  from IntvarEvent_consumed [OF h] IntvarEvent_fields [OF h] IntvarEvent_fields [OF h'] a h h'
  show "\<exists>e p' e' q'.
         IntvarEvent_init p es tm cc kw = Inr (e, p')
         \<and> read_bytes p' = read_bytes p + 5 \<and> data p' = drop 5 (data p)
         \<and> IntvarEvent_init q es' tm' cc' kw' = Inr (e', q')
         \<and> intvar_type e' = intvar_type e \<and> intvar_value e' = intvar_value e"
    by (simp add: consumed_def)
qed


theorem fixed_size_events_consume_and_determine_witness:
  "\<exists>e p' e' q'.
     GtidEvent_init (packet_of gtid_example) 25 () () default_kwargs = Inr (e, p')
     \<and> read_bytes p' = 25 \<and> data p' = []
     \<and> GtidEvent_init ((packet_of gtid_example)\<lparr>read_bytes := 100\<rparr>) 99 () () default_kwargs
         = Inr (e', q')
     \<and> commit_flag e' = commit_flag e \<and> sid e' = sid e \<and> gno e' = gno e"
  using fixed_size_events_consume_and_determine
    [where p = "packet_of gtid_example" and q = "(packet_of gtid_example)\<lparr>read_bytes := 100\<rparr>"
       and es = 25 and tm = "()" and cc = "()" and kw = default_kwargs
       and es' = 99 and tm' = "()" and cc' = "()" and kw' = default_kwargs]
  by (simp add: packet_of_def gtid_example_def)

section \<open>FormatDescriptionEvent and the checksum\<close>


lemma sint_eq_1: "(sint (b :: byte) = 1) = (b = 1)"
  using word_eq_iff_signed [of b 1, where ?'a = int] by simp







section \<open>The GTID text\<close>

lemma length_hexlify: "length (hexlify bs) = 2 * length bs"
  by (induction bs) (simp_all add: hexlify_def)

lemma hexdigit_lower_hex: "n < 16 \<Longrightarrow> lower_hex (hexdigit n)"
  unfolding lower_hex_def hexdigit_def by (rule nth_mem) simp

lemma unat_byte_div_16: "unat (b :: byte) div 16 < 16"
proof -
  have "unat b < 2 ^ LENGTH(8)" by (rule unsigned_less)
  then have "unat b < 256" by simp
  then show ?thesis by simp
qed

lemma lower_hex_hexlify: "list_all lower_hex (hexlify bs)"
  by (induction bs) (simp_all add: hexlify_def hexdigit_lower_hex unat_byte_div_16)

lemma digit_char_value: "k < 10 \<Longrightarrow> of_char (''0123456789'' ! k) = 48 + k"
proof -
  assume "k < 10"
  then have "k \<in> {0, 1, 2, 3, 4, 5, 6, 7, 8, 9}" by auto
  then show ?thesis by auto
qed

lemma decimal_value_snoc:
  "decimal_value (s @ [c]) = 10 * decimal_value s + (of_char c - 48)"
  by (simp add: decimal_value_def)

lemma decimal_value_digits10: "decimal_value (digits10 n) = n"
proof (induction n rule: digits10.induct)
  case (1 n)
  show ?case
  proof (cases "n < 10")
    case True
    then show ?thesis
      by (subst digits10.simps) (simp add: decimal_value_def digit_char_value)
  next
    case False
    with 1 have "decimal_value (digits10 (n div 10)) = n div 10" by simp
    with False show ?thesis
      by (subst digits10.simps) (simp add: decimal_value_snoc digit_char_value)
  qed
qed

lemma le_uint_bounds: "0 \<le> le_uint bs \<and> le_uint bs < 256 ^ length bs"
proof (induction bs)
  case Nil
  show ?case by simp
next
  case (Cons b bs)
  have "uint b < 2 ^ LENGTH(8)" by (rule unsigned_less)
  then have "uint b < 256" by simp
  moreover have "0 \<le> uint b" by simp
  ultimately show ?case using Cons by simp
qed

lemma GtidEvent_well_formed:
  assumes "GtidEvent_init p es tm cc kw = Inr (e, p')"
  shows "length (sid e) = 16 \<and> 0 \<le> gno e \<and> gno e < 2 ^ 64"
proof -
  from GtidEvent_consumed [OF assms] have "25 \<le> length (data p)"
    by (simp add: consumed_def)
  with GtidEvent_fields [OF assms] le_uint_bounds [of "take 8 (drop 17 (data p))"]
  show ?thesis by simp
qed

text \<open>
  C5. For a GtidEvent with a source id of 16 bytes and a transaction number that fits 64
  unsigned bits, the \<open>gtid\<close> text is the 32 lowercase hexadecimal digits of the source id
  in hyphen-joined groups of lengths 8-4-4-4-12, a colon, and the transaction number in
  decimal.
\<close>

theorem gtid_format:
  assumes "length (sid e) = 16" and "0 \<le> gno e" and "gno e < 2 ^ 64"
  shows "gtid e = gtid_text (sid e) (gno e)
     \<and> length (hexlify (sid e)) = 32 \<and> list_all lower_hex (hexlify (sid e))
     \<and> map length (split_groups [8, 4, 4, 4, 12] (hexlify (sid e))) = [8, 4, 4, 4, 12]
     \<and> concat (split_groups [8, 4, 4, 4, 12] (hexlify (sid e))) = hexlify (sid e)
     \<and> int (decimal_value (fmt_d (gno e))) = gno e"
proof -
  have len: "length (hexlify (sid e)) = 32"
    using assms(1) by (simp add: length_hexlify)
  have "take 12 (drop 20 (hexlify (sid e))) = drop 20 (hexlify (sid e))"
    using len by simp
  then have g: "gtid e = gtid_text (sid e) (gno e)"
    by (simp add: gtid_def gtid_text_def slice_def Let_def)
  have c: "concat (split_groups [8, 4, 4, 4, 12] (hexlify (sid e))) = hexlify (sid e)"
    using len
    by (simp add: append_eq_conv_conj)
  from assms(2) have d: "int (decimal_value (fmt_d (gno e))) = gno e"
    by (simp add: fmt_d_def decimal_value_digits10)
  from g len c d show ?thesis
    by (simp add: lower_hex_hexlify)
qed

lemma gtid_example_decode:
  "GtidEvent_init (packet_of gtid_example) 25 () () default_kwargs
   = Inr (BinLogEvent.extend (BinLogEvent_init (packet_of gtid_example) 25 () () default_kwargs)
            (GtidEvent.fields True (take 16 (drop 1 gtid_example)) 23),
          (packet_of gtid_example)\<lparr>data := [], read_bytes := 25\<rparr>)"
  by (simp add: GtidEvent_init_def gtid_example_def byte2int_def unpack_le_def eval_simps)


theorem gtid_format_witness:
  "map_sum id (\<lambda>(e, p'). gtid e)
     (GtidEvent_init (packet_of gtid_example) 25 () () default_kwargs)
   = Inr ''3e11fa47-71ca-11e1-9e33-c80aa9429562:23''"
proof -
  let ?e = "BinLogEvent.extend (BinLogEvent_init (packet_of gtid_example) 25 () () default_kwargs)
              (GtidEvent.fields True (take 16 (drop 1 gtid_example)) 23)"
  have s: "sid ?e = take 16 (drop 1 gtid_example)" "gno ?e = 23"
    by (simp_all add: BinLogEvent.defs GtidEvent.defs)
  have "length (sid ?e) = 16" "0 \<le> gno ?e" "gno ?e < 2 ^ 64"
    unfolding s by (simp_all add: gtid_example_def)
  from gtid_format [OF this] have "gtid ?e = gtid_text (sid ?e) (gno ?e)"
    by blast
  also have "\<dots> = ''3e11fa47-71ca-11e1-9e33-c80aa9429562:23''"
    unfolding s
    by (simp add: gtid_text_def gtid_example_def hexlify_def hexdigit_def fmt_d_def
        digits10.simps)
  finally show ?thesis
    by (simp add: gtid_example_decode)
qed

section \<open>The keyword arguments\<close>

lemma wrap_bnd: "wrap f (bnd m g) = bnd m (\<lambda>x. wrap f (g x))"
  by (cases m) (simp_all add: wrap_def)

lemma wrap_Inr: "wrap f (Inr (e, p)) = Inr (f e, p)"
  by (simp add: wrap_def)

lemma wrap_Inl: "wrap f (Inl e) = Inl e"
  by (simp add: wrap_def)

lemma wrap_wrap: "wrap f (wrap g r) = wrap (\<lambda>x. f (g x)) r"
  by (simp add: wrap_def split: sum.splits)

lemma wrap_if: "wrap f (if c then a else b) = (if c then wrap f a else wrap f b)"
  by simp

lemma wrap_case_sum:
  "wrap f (case s of Inl e \<Rightarrow> a e | Inr y \<Rightarrow> b y) =
   (case s of Inl e \<Rightarrow> wrap f (a e) | Inr y \<Rightarrow> wrap f (b y))"
  by (cases s) simp_all

lemmas kw_simps = wrap_case_sum wrap_bnd wrap_Inr wrap_Inl wrap_if split_def Let_def BinLogEvent_init_def
  default_kwargs_def BinLogEvent.defs

lemma GtidEvent_kwargs:
  "wrap Gtid (GtidEvent_init p es tm cc kw) =
   wrap (store_flag (kw_fail_on_table_metadata_unavailable kw))
     (wrap Gtid (GtidEvent_init p es tm cc default_kwargs))"
  by (simp add: wrap_wrap GtidEvent_init_def GtidEvent.defs kw_simps)

lemma RotateEvent_kwargs:
  "wrap Rotate (RotateEvent_init p es tm cc kw) =
   wrap (store_flag (kw_fail_on_table_metadata_unavailable kw))
     (wrap Rotate (RotateEvent_init p es tm cc default_kwargs))"
  by (simp add: wrap_wrap RotateEvent_init_def RotateEvent.defs kw_simps cong: if_cong sum.case_cong)

lemma FormatDescriptionEvent_kwargs:
  "wrap FormatDescription (FormatDescriptionEvent_init ok p es tm cc kw) =
   wrap (store_flag (kw_fail_on_table_metadata_unavailable kw))
     (wrap FormatDescription (FormatDescriptionEvent_init ok p es tm cc default_kwargs))"
  by (simp add: wrap_wrap FormatDescriptionEvent_init_def FormatDescriptionEvent.defs kw_simps cong: if_cong)

lemma StopEvent_kwargs:
  "wrap Stop (StopEvent_init p es tm cc kw) =
   wrap (store_flag (kw_fail_on_table_metadata_unavailable kw))
     (wrap Stop (StopEvent_init p es tm cc default_kwargs))"
  by (simp add: wrap_wrap StopEvent_init_def kw_simps)

lemma XidEvent_kwargs:
  "wrap Xid (XidEvent_init p es tm cc kw) =
   wrap (store_flag (kw_fail_on_table_metadata_unavailable kw))
     (wrap Xid (XidEvent_init p es tm cc default_kwargs))"
  by (simp add: wrap_wrap XidEvent_init_def XidEvent.defs kw_simps)

lemma HeartbeatLogEvent_kwargs:
  "wrap HeartbeatLog (HeartbeatLogEvent_init p es tm cc kw) =
   wrap (store_flag (kw_fail_on_table_metadata_unavailable kw))
     (wrap HeartbeatLog (HeartbeatLogEvent_init p es tm cc default_kwargs))"
  by (simp add: wrap_wrap HeartbeatLogEvent_init_def HeartbeatLogEvent.defs kw_simps)

lemma QueryEvent_kwargs:
  "wrap Query (QueryEvent_init d c p es tm cc kw) =
   wrap (store_flag (kw_fail_on_table_metadata_unavailable kw))
     (wrap Query (QueryEvent_init d c p es tm cc default_kwargs))"
  by (simp add: wrap_wrap QueryEvent_init_def QueryEvent.defs kw_simps)

lemma BeginLoadQueryEvent_kwargs:
  "wrap BeginLoadQuery (BeginLoadQueryEvent_init p es tm cc kw) =
   wrap (store_flag (kw_fail_on_table_metadata_unavailable kw))
     (wrap BeginLoadQuery (BeginLoadQueryEvent_init p es tm cc default_kwargs))"
  by (simp add: wrap_wrap BeginLoadQueryEvent_init_def BeginLoadQueryEvent.defs kw_simps)

lemma ExecuteLoadQueryEvent_kwargs:
  "wrap ExecuteLoadQuery (ExecuteLoadQueryEvent_init p es tm cc kw) =
   wrap (store_flag (kw_fail_on_table_metadata_unavailable kw))
     (wrap ExecuteLoadQuery (ExecuteLoadQueryEvent_init p es tm cc default_kwargs))"
  by (simp add: wrap_wrap ExecuteLoadQueryEvent_init_def ExecuteLoadQueryEvent.defs kw_simps)

lemma IntvarEvent_kwargs:
  "wrap Intvar (IntvarEvent_init p es tm cc kw) =
   wrap (store_flag (kw_fail_on_table_metadata_unavailable kw))
     (wrap Intvar (IntvarEvent_init p es tm cc default_kwargs))"
  by (simp add: wrap_wrap IntvarEvent_init_def IntvarEvent.defs kw_simps)

lemma NotImplementedEvent_kwargs:
  "wrap NotImplemented (NotImplementedEvent_init p es tm cc kw) =
   wrap (store_flag (kw_fail_on_table_metadata_unavailable kw))
     (wrap NotImplemented (NotImplementedEvent_init p es tm cc default_kwargs))"
  by (simp add: wrap_wrap NotImplementedEvent_init_def kw_simps)


text \<open>
  C8, as amended. The filter lists \<open>only_tables\<close>, \<open>ignored_tables\<close>, \<open>only_schemas\<close>,
  \<open>ignored_schemas\<close> and \<open>freeze_schema\<close> are accepted and dropped: they are not stored on
  the event. The flag \<open>fail_on_table_metadata_unavailable\<close> alone is stored. None of them is
  interpreted: for every value of the keyword arguments the decode fails with the same
  error or succeeds with the same packet state and the same event as with the defaults,
  but for the stored flag.
\<close>

theorem kwargs_not_interpreted:
  "construct x v p es tm cc kw =
     wrap (store_flag (kw_fail_on_table_metadata_unavailable kw))
       (construct x v p es tm cc default_kwargs)
   \<and> (\<forall>e p'. construct x v p es tm cc kw = Inr (e, p') \<longrightarrow>
         fail_on_table_metadata_unavailable (envelope e)
           = kw_fail_on_table_metadata_unavailable kw)"
proof
  show "construct x v p es tm cc kw =
     wrap (store_flag (kw_fail_on_table_metadata_unavailable kw))
       (construct x v p es tm cc default_kwargs)"
  proof (cases v)
    case VGtid
    show ?thesis
      unfolding VGtid construct.simps by (rule GtidEvent_kwargs)
  next
    case VRotate
    show ?thesis
      unfolding VRotate construct.simps by (rule RotateEvent_kwargs)
  next
    case VFormatDescription
    show ?thesis
      unfolding VFormatDescription construct.simps by (rule FormatDescriptionEvent_kwargs)
  next
    case VStop
    show ?thesis
      unfolding VStop construct.simps by (rule StopEvent_kwargs)
  next
    case VXid
    show ?thesis
      unfolding VXid construct.simps by (rule XidEvent_kwargs)
  next
    case VHeartbeatLog
    show ?thesis
      unfolding VHeartbeatLog construct.simps by (rule HeartbeatLogEvent_kwargs)
  next
    case VQuery
    show ?thesis
      unfolding VQuery construct.simps by (rule QueryEvent_kwargs)
  next
    case VBeginLoadQuery
    show ?thesis
      unfolding VBeginLoadQuery construct.simps by (rule BeginLoadQueryEvent_kwargs)
  next
    case VExecuteLoadQuery
    show ?thesis
      unfolding VExecuteLoadQuery construct.simps by (rule ExecuteLoadQueryEvent_kwargs)
  next
    case VIntvar
    show ?thesis
      unfolding VIntvar construct.simps by (rule IntvarEvent_kwargs)
  next
    case VNotImplemented
    show ?thesis
      unfolding VNotImplemented construct.simps by (rule NotImplementedEvent_kwargs)
  qed
  show "\<forall>e p'. construct x v p es tm cc kw = Inr (e, p') \<longrightarrow>
         fail_on_table_metadata_unavailable (envelope e)
           = kw_fail_on_table_metadata_unavailable kw"
    by (auto dest!: construct_envelope simp: BinLogEvent_init_def)
qed

text \<open>Two decodes whose filter lists differ give the same event: the lists leave no
  trace on it.\<close>

theorem kwargs_not_interpreted_counterexample:
  "construct no_externals VXid (packet_of [7, 0, 0, 0, 0, 0, 0, 0]) 8 () ()
     (default_kwargs\<lparr>only_tables := Some [''orders''], ignored_schemas := Some [''test'']\<rparr>)
   = construct no_externals VXid (packet_of [7, 0, 0, 0, 0, 0, 0, 0]) 8 () () default_kwargs
   \<and> only_tables (default_kwargs\<lparr>only_tables := Some [''orders''],
        ignored_schemas := Some [''test'']\<rparr>) \<noteq> only_tables default_kwargs"
  by (simp add: XidEvent_init_def unpack_le_def BinLogEvent_init_def eval_simps)

theorem kwargs_not_interpreted_witness:
  "map_sum id (\<lambda>(e, p'). (fail_on_table_metadata_unavailable (envelope e), read_bytes p'))
     (construct no_externals VXid (packet_of [7, 0, 0, 0, 0, 0, 0, 0]) 8 () ()
        (default_kwargs\<lparr>kw_fail_on_table_metadata_unavailable := True\<rparr>))
   = Inr (True, 8)"
proof -
  obtain e p' where
    h: "construct no_externals VXid (packet_of [7, 0, 0, 0, 0, 0, 0, 0]) 8 () ()
          (default_kwargs\<lparr>kw_fail_on_table_metadata_unavailable := True\<rparr>)
        = Inr (e :: (unit, unit) event, p')"
      and r: "read_bytes p' = 8"
    by (simp add: XidEvent_init_def unpack_le_def eval_simps)
  from kwargs_not_interpreted
    [of no_externals VXid "packet_of [7, 0, 0, 0, 0, 0, 0, 0]" 8 "()" "()"
       "default_kwargs\<lparr>kw_fail_on_table_metadata_unavailable := True\<rparr>"] h
  have "fail_on_table_metadata_unavailable (envelope e) = True"
    by (simp add: default_kwargs_def)
  with h r show ?thesis by simp
qed

section \<open>QueryEvent: the query length and the query text\<close>

lemma bnd_Inl_iff: "(bnd m f = Inl e) = (m = Inl e \<or> (\<exists>x. m = Inr x \<and> f x = Inl e))"
  by (cases m) simp_all

lemma read_Inl: "read n p = Inl e \<Longrightarrow> e = TruncatedPacket"
  by (simp add: read_def split: if_splits)

lemma advance_Inl: "advance n p = Inl e \<Longrightarrow> e = TruncatedPacket"
  by (simp add: advance_def split: if_splits)

lemma read_uint_Inl: "read_uint n p = Inl e \<Longrightarrow> e = TruncatedPacket"
  by (auto simp: read_uint_def bnd_Inl_iff dest: read_Inl)

lemma read1_byte2int: "read 1 p = Inr (b, p') \<Longrightarrow> byte2int b = Inr (uint (hd (data p)))"
  by (cases "data p") (auto simp: read_def byte2int_def split: if_splits)

lemma decode_query_Inl: "decode_query det reg q = Inl e \<Longrightarrow> e = LookupError"
  by (auto simp: decode_query_def decode_utf8_def decode_with_def
      split: if_splits option.splits sum.splits)

lemma QueryEvent_errors:
  assumes "QueryEvent_init det reg p es tm cc kw = Inl e"
  shows "e = TruncatedPacket \<or> e = LookupError"
  using assms
  by (auto simp: QueryEvent_init_def Let_def bnd_Inl_iff read_uint32_def read_uint16_def
      dest: read_Inl advance_Inl read_uint_Inl decode_query_Inl read1_byte2int)

lemma hd_drop_nth: "n < length xs \<Longrightarrow> hd (drop n xs) = xs ! n"
  by (simp add: hd_drop_conv_nth)

lemma QueryEvent_negative:
  assumes len: "13 \<le> length (data p)"
    and neg: "es - 13 - le_uint (take 2 (drop 11 (data p))) - uint (data p ! 8) - 1 < 0"
  shows "QueryEvent_init det reg p es tm cc kw = Inl TruncatedPacket"
proof -
  from len have ne: "drop 8 (data p) \<noteq> []" by simp
  from len have hd8: "hd (drop 8 (data p)) = data p ! 8" by (simp add: hd_drop_conv_nth)
  show ?thesis
    using len neg ne hd8
    by (simp add: QueryEvent_init_def Let_def read_uint32_def read_uint16_def read_uint_def
        read_def advance_def byte2int_take1)
qed

text \<open>
  C1, as amended. The QueryEvent decoder makes no check of the computed query length and
  never raises ArithmeticUnderflow. The integers do not wrap: when the length
  \<open>event_size - 13 - status_vars_length - schema_length - 1\<close> is negative, it is passed as
  it is to the read of the packet, and the decode fails with the failure of the cursor,
  the error of a short read.
\<close>

theorem QueryEvent_negative_length:
  "QueryEvent_init det reg p es tm cc kw \<noteq> Inl ArithmeticUnderflow
   \<and> (13 \<le> length (data p)
        \<and> es - 13 - le_uint (take 2 (drop 11 (data p))) - uint (data p ! 8) - 1 < 0
      \<longrightarrow> QueryEvent_init det reg p es tm cc kw = Inl TruncatedPacket)"
  using QueryEvent_errors [of det reg p es tm cc kw ArithmeticUnderflow]
    QueryEvent_negative [of p es det reg tm cc kw]
  by auto

text \<open>The example payload with the declared size 15: \<open>2 + 4 + 14 > 15\<close>, the computed
  length is \<open>-5\<close>, and the error is the cursor's.\<close>

theorem QueryEvent_negative_length_counterexample:
  "QueryEvent_init (\<lambda>q. None) (\<lambda>n. None) (packet_of query_example) 15 () () default_kwargs
     = Inl TruncatedPacket
   \<and> (2 :: int) + 4 + 14 > 15"
  by (simp add: QueryEvent_init_def query_example_def ascii_bytes_def byte2int_def eval_simps)

theorem QueryEvent_negative_length_witness:
  "QueryEvent_init (\<lambda>q. None) (\<lambda>n. None) (packet_of [0, 0, 0, 0, 0, 0, 0, 0, 0, 0, 0, 0, 0, 0]) 13 () () default_kwargs
     = Inl TruncatedPacket"
  using QueryEvent_negative_length
    [of "\<lambda>q. None" "\<lambda>n. None" "packet_of [0, 0, 0, 0, 0, 0, 0, 0, 0, 0, 0, 0, 0, 0]" 13 "()" "()" default_kwargs]
  by (simp add: packet_of_def)

text \<open>
  What \<open>_decode_query\<close> does on every input. The empty query text is returned as it is,
  as bytes, whatever the detector and the registry. The decoding raises in one case alone,
  and then \<open>LookupError\<close>: the bytes are not empty and not valid UTF-8, and the detector
  suggests a name for which the registry has no codec. Whenever the bytes are valid UTF-8,
  or the suggestion, if there is one, names a codec, the policy holds: the strict UTF-8
  decoding; otherwise the decoding under the suggested encoding when that succeeds;
  otherwise the bytes unchanged.
\<close>

lemma decode_query_empty: "decode_query det reg [] = Inr (Bytes [])"
  by (simp add: decode_query_def)

lemma decode_query_raises_iff:
  "(decode_query det reg q = Inl e) =
     (e = LookupError \<and> q \<noteq> [] \<and> utf8_decode q = None
      \<and> (\<exists>name. det q = Some name \<and> reg name = None))"
  by (auto simp: decode_query_def decode_utf8_def decode_with_def split: option.splits)

lemma decode_query_valid_utf8:
  "q \<noteq> [] \<Longrightarrow> utf8_decode q = Some t \<Longrightarrow> decode_query det reg q = Inr (Str t)"
  by (simp add: decode_query_def decode_utf8_def)

lemma decode_query_detected:
  "q \<noteq> [] \<Longrightarrow> utf8_decode q = None \<Longrightarrow> det q = Some name \<Longrightarrow> reg name = Some dec \<Longrightarrow>
     decode_query det reg q = Inr (case dec q of Some t \<Rightarrow> Str t | None \<Rightarrow> Bytes q)"
  by (simp add: decode_query_def decode_utf8_def decode_with_def split: option.splits)

lemma decode_query_undetected:
  "q \<noteq> [] \<Longrightarrow> utf8_decode q = None \<Longrightarrow> det q = None \<Longrightarrow>
     decode_query det reg q = Inr (Bytes q)"
  by (simp add: decode_query_def decode_utf8_def decode_with_def)

lemma decode_query_examples:
  "decode_query (\<lambda>q. Some ''ISO-8859-1'') latin1_registry [0xE9] = Inr (Str [233])"
  "decode_query (\<lambda>q. Some ''EUC-TW'') latin1_registry [0x61] = Inr (Str [97])"
  "decode_query (\<lambda>q. None) latin1_registry [0xE9] = Inr (Bytes [0xE9])"
  by (simp_all add: decode_query_def decode_utf8_def decode_with_def latin1_registry_def)

text \<open>
  C2. The claim: for every query text the decoding never raises, and bytes that neither
  strict UTF-8 nor the detector's suggested encoding decodes are returned unchanged. The
  code departs from it. For the one byte \<open>0xFF\<close>, which is not valid UTF-8, and a detector
  that suggests \<open>EUC-TW\<close>, a name without a codec, \<open>bytes.decode\<close> raises \<open>LookupError\<close>;
  the handler, which its comment gives to the unrecognized encoding, catches \<open>TypeError\<close>
  and \<open>UnicodeError\<close> alone, and the error leaves \<open>_decode_query\<close> where the claim has
  the bytes \<open>0xFF\<close> returned.
\<close>

theorem decode_query_lookup_error:
  "decode_query (\<lambda>q. Some ''EUC-TW'') latin1_registry [0xFF] = Inl LookupError
   \<and> utf8_decode [0xFF] = None
   \<and> latin1_registry ''EUC-TW'' = None"
  by (simp add: decode_query_def decode_utf8_def decode_with_def latin1_registry_def)

section \<open>The layout of the dump\<close>

lemma ascii_append: "ascii (s @ t) = ascii s @ ascii t"
  by (simp add: ascii_def)

lemma key_value_own_dump: "list_all key_value (own_dump pr e)"
  by (cases e) (simp_all add: ascii_append, simp_all add: ascii_def)

lemma dump_base:
  "\<not> own_override e \<Longrightarrow>
     dump pr e p = BinLogEvent_dump pr (class_name e) (envelope e) p (own_dump pr e)"
  by (cases e) (simp_all add: own_override_def)

text \<open>
  C7, as amended. For every event but a RotateEvent and a FormatDescriptionEvent the dump
  is the header line \<open>=== <class name> ===\<close>, the lines \<open>Date:\<close>, \<open>Log position:\<close>,
  \<open>Event size:\<close> and \<open>Read bytes:\<close>, the \<open>Key: value\<close> lines of the class, and one empty line.
  RotateEvent and FormatDescriptionEvent define the whole dump anew: the header line, two
  \<open>Key: value\<close> lines of their own, and the empty line; none of the lines \<open>Date:\<close>,
  \<open>Log position:\<close>, \<open>Event size:\<close> and \<open>Read bytes:\<close> is printed.
\<close>

theorem dump_layout:
  "(\<not> own_override e \<longrightarrow>
      dump pr e p =
        [ascii (''=== '' @ class_name e @ '' ===''),
         ascii ''Date: '' @ isoformat pr (timestamp (envelope e)),
         ascii (''Log position: '' @ fmt_d (log_pos p)),
         ascii (''Event size: '' @ fmt_d (event_size (envelope e))),
         ascii (''Read bytes: '' @ fmt_d (read_bytes p))]
        @ own_dump pr e @ [[]]
      \<and> list_all key_value (own_dump pr e))
   \<and> (own_override e \<longrightarrow>
      length (dump pr e p) = 4
      \<and> dump pr e p ! 0 = ascii (''=== '' @ class_name e @ '' ==='')
      \<and> key_value (dump pr e p ! 1) \<and> key_value (dump pr e p ! 2)
      \<and> dump pr e p ! 3 = []
      \<and> list_all (\<lambda>l. \<not> starts_with l ''Date: '' \<and> \<not> starts_with l ''Log position: ''
                     \<and> \<not> starts_with l ''Event size: '' \<and> \<not> starts_with l ''Read bytes: '')
           (dump pr e p))"
proof (intro conjI impI)
  assume "\<not> own_override e"
  then show "dump pr e p =
        [ascii (''=== '' @ class_name e @ '' ===''),
         ascii ''Date: '' @ isoformat pr (timestamp (envelope e)),
         ascii (''Log position: '' @ fmt_d (log_pos p)),
         ascii (''Event size: '' @ fmt_d (event_size (envelope e))),
         ascii (''Read bytes: '' @ fmt_d (read_bytes p))]
        @ own_dump pr e @ [[]]"
    by (simp add: dump_base BinLogEvent_dump_def)
next
  show "list_all key_value (own_dump pr e)"
    by (rule key_value_own_dump)
next
  assume o: "own_override e"
  then show "length (dump pr e p) = 4"
    by (cases e) (simp_all add: own_override_def RotateEvent_dump_def FormatDescriptionEvent_dump_def)
  from o show "dump pr e p ! 0 = ascii (''=== '' @ class_name e @ '' ==='')"
    by (cases e) (simp_all add: own_override_def RotateEvent_dump_def FormatDescriptionEvent_dump_def)
  from o show "key_value (dump pr e p ! 1)"
    by (cases e) (simp_all add: own_override_def RotateEvent_dump_def FormatDescriptionEvent_dump_def ascii_append, simp_all add: ascii_def)
  from o show "key_value (dump pr e p ! 2)"
    by (cases e) (simp_all add: own_override_def RotateEvent_dump_def FormatDescriptionEvent_dump_def ascii_append, simp_all add: ascii_def)
  from o show "dump pr e p ! 3 = []"
    by (cases e) (simp_all add: own_override_def RotateEvent_dump_def FormatDescriptionEvent_dump_def)
  from o show "list_all (\<lambda>l. \<not> starts_with l ''Date: '' \<and> \<not> starts_with l ''Log position: ''
                     \<and> \<not> starts_with l ''Event size: '' \<and> \<not> starts_with l ''Read bytes: '')
           (dump pr e p)"
    by (cases e) (simp_all add: own_override_def RotateEvent_dump_def FormatDescriptionEvent_dump_def ascii_append starts_with_def, simp_all add: ascii_def)
qed


text \<open>The dump of a RotateEvent: four lines, no date, log position or event size.\<close>

theorem dump_layout_counterexample:
  "dump example_printers (Rotate rotate_event_example) (packet_of [])
   = [ascii ''=== RotateEvent ==='',
      ascii ''Position: 4'',
      ascii ''Next binlog file: mysql-bin.000002'',
      []]"
  by (simp add: RotateEvent_dump_def rotate_event_example_def BinLogEvent.defs RotateEvent.defs
      fmt_d_def digits10.simps ascii_def)

theorem dump_layout_witness:
  "dump example_printers (Xid xid_event_example) ((packet_of [])\<lparr>read_bytes := 8\<rparr>)
   = [ascii ''=== XidEvent ==='',
      ascii ''Date: 1970-01-01T00:00:00'',
      ascii ''Log position: 4'',
      ascii ''Event size: 8'',
      ascii ''Read bytes: 8'',
      ascii ''Transaction ID: 7'',
      []]
   \<and> length (dump example_printers (Rotate rotate_event_example) (packet_of [])) = 4"
proof -
  have a: "\<not> own_override (Xid xid_event_example)" "own_override (Rotate rotate_event_example)"
    by (simp_all add: own_override_def)
  from dump_layout [of "Xid xid_event_example" example_printers "(packet_of [])\<lparr>read_bytes := 8\<rparr>"] a
  have "dump example_printers (Xid xid_event_example) ((packet_of [])\<lparr>read_bytes := 8\<rparr>) =
        [ascii (''=== '' @ class_name (Xid xid_event_example) @ '' ===''),
         ascii ''Date: '' @ isoformat example_printers (timestamp (envelope (Xid xid_event_example))),
         ascii (''Log position: '' @ fmt_d (log_pos ((packet_of [])\<lparr>read_bytes := 8\<rparr>))),
         ascii (''Event size: '' @ fmt_d (event_size (envelope (Xid xid_event_example)))),
         ascii (''Read bytes: '' @ fmt_d (read_bytes ((packet_of [])\<lparr>read_bytes := 8\<rparr>)))]
        @ own_dump example_printers (Xid xid_event_example) @ [[]]"
    by blast
  moreover from dump_layout [of "Rotate rotate_event_example" example_printers "packet_of []"] a
  have "length (dump example_printers (Rotate rotate_event_example) (packet_of [])) = 4"
    by blast
  ultimately show ?thesis
    by (simp add: xid_event_example_def example_printers_def packet_of_def BinLogEvent_init_def
        BinLogEvent.defs XidEvent.defs fmt_d_def digits10.simps ascii_def)
qed

section \<open>RotateEvent and the name of the next file\<close>

lemma name_shaped_iff:
  "name_shaped s =
     (\<exists>pre ds. s = pre @ [0x2E] @ ds \<and> pre \<noteq> [] \<and> list_all any_char pre
        \<and> length ds = 6 \<and> list_all is_digit ds)"
proof
  assume a: "name_shaped s"
  let ?k = "length s - 7"
  from a have len: "8 \<le> length s" by (simp add: name_shaped_def)
  then have "s = take ?k s @ [s ! ?k] @ drop (Suc ?k) s"
    by (simp add: id_take_nth_drop [symmetric])
  moreover from len have "Suc ?k = length s - 6" by simp
  ultimately have "s = take ?k s @ [0x2E] @ drop (length s - 6) s"
    using a by (simp add: name_shaped_def)
  moreover from len have "take ?k s \<noteq> []" by auto
  moreover from len have "length (drop (length s - 6) s) = 6" by simp
  ultimately show "\<exists>pre ds. s = pre @ [0x2E] @ ds \<and> pre \<noteq> [] \<and> list_all any_char pre
        \<and> length ds = 6 \<and> list_all is_digit ds"
    using a unfolding name_shaped_def by blast
next
  assume "\<exists>pre ds. s = pre @ [0x2E] @ ds \<and> pre \<noteq> [] \<and> list_all any_char pre
        \<and> length ds = 6 \<and> list_all is_digit ds"
  then obtain pre ds where s: "s = pre @ [0x2E] @ ds" and p: "pre \<noteq> []" "list_all any_char pre"
    and d: "length ds = 6" "list_all is_digit ds"
    by blast
  from p have "1 \<le> length pre" by (cases pre) simp_all
  with s d p show "name_shaped s"
    by (simp add: name_shaped_def nth_append)
qed

lemma list_all_take_takeWhile:
  "k \<le> length xs \<Longrightarrow> list_all P (take k xs) = (k \<le> length (takeWhile P xs))"
proof (induction xs arbitrary: k)
  case Nil
  then show ?case by simp
next
  case (Cons x xs)
  then show ?case by (cases k) auto
qed

lemma dot_digits_iff:
  "dot_digits bs = (7 \<le> length bs \<and> bs ! 0 = 0x2E \<and> list_all is_digit (take 6 (drop 1 bs)))"
  by (cases bs) (auto simp: dot_digits_def)

lemma name_shaped_prefix:
  assumes "n \<le> length bs"
  shows "name_shaped (take n bs) =
     (8 \<le> n \<and> n - 7 \<le> length (takeWhile any_char bs) \<and> dot_digits (drop (n - 7) bs))"
proof (cases "8 \<le> n")
  case False
  with assms show ?thesis by (simp add: name_shaped_def)
next
  case True
  from assms have L: "length (take n bs) = n"
    by simp
  from True have S: "Suc (n - 7) = n - 6"
    by simp
  from True assms have A: "list_all any_char (take (n - 7) (take n bs))
      = (n - 7 \<le> length (takeWhile any_char bs))"
    by (simp add: list_all_take_takeWhile min_def)
  from True assms have B: "take n bs ! (n - 7) = drop (n - 7) bs ! 0"
    by simp
  from True assms S have C: "drop (n - 6) (take n bs) = take 6 (drop 1 (drop (n - 7) bs))"
    by (simp add: drop_take)
  from True assms have D: "7 \<le> length (drop (n - 7) bs)"
    by simp
  show ?thesis
    unfolding name_shaped_def dot_digits_iff L A B C using True D by simp
qed

lemma backtrack_Some:
  "backtrack bs k = Some m \<Longrightarrow>
     \<exists>j. 1 \<le> j \<and> j \<le> k \<and> dot_digits (drop j bs) \<and> m = take (j + 7) bs
        \<and> (\<forall>j'. j < j' \<and> j' \<le> k \<longrightarrow> \<not> dot_digits (drop j' bs))"
proof (induction k)
  case 0
  then show ?case by simp
next
  case (Suc k)
  show ?case
  proof (cases "dot_digits (drop (Suc k) bs)")
    case True
    with Suc.prems have "m = take (Suc k + 7) bs" by simp
    with True show ?thesis
      by (intro exI [of _ "Suc k"]) auto
  next
    case False
    with Suc.prems have "backtrack bs k = Some m" by simp
    from Suc.IH [OF this] obtain j where
      j: "1 \<le> j" "j \<le> k" "dot_digits (drop j bs)" "m = take (j + 7) bs"
        "\<forall>j'. j < j' \<and> j' \<le> k \<longrightarrow> \<not> dot_digits (drop j' bs)"
      by blast
    have "\<forall>j'. j < j' \<and> j' \<le> Suc k \<longrightarrow> \<not> dot_digits (drop j' bs)"
    proof (intro allI impI)
      fix j' assume "j < j' \<and> j' \<le> Suc k"
      then have "j' = Suc k \<or> (j < j' \<and> j' \<le> k)" by auto
      with False j(5) show "\<not> dot_digits (drop j' bs)" by auto
    qed
    with j show ?thesis
      by (intro exI [of _ j]) auto
  qed
qed

lemma backtrack_None:
  "backtrack bs k = None \<Longrightarrow> 1 \<le> j \<Longrightarrow> j \<le> k \<Longrightarrow> \<not> dot_digits (drop j bs)"
proof (induction k)
  case 0
  then show ?case by simp
next
  case (Suc k)
  from Suc.prems(1) have nd: "\<not> dot_digits (drop (Suc k) bs)" and b: "backtrack bs k = None"
    by (simp_all split: if_splits)
  show ?case
  proof (cases "j = Suc k")
    case True
    with nd show ?thesis by simp
  next
    case False
    with Suc.prems have "j \<le> k" by simp
    with Suc.IH b Suc.prems(2) show ?thesis by simp
  qed
qed

lemma match_at_None:
  assumes "match_at bs = None"
  shows "\<not> matches_at bs 0 n"
proof
  assume "matches_at bs 0 n"
  then have n: "n \<le> length bs" "name_shaped (take n bs)"
    by (simp_all add: matches_at_def)
  then have "8 \<le> n" "n - 7 \<le> length (takeWhile any_char bs)" "dot_digits (drop (n - 7) bs)"
    by (simp_all add: name_shaped_prefix)
  moreover from this have "1 \<le> n - 7" by simp
  ultimately show False
    using backtrack_None [of bs "length (takeWhile any_char bs)" "n - 7"] assms
    by (simp add: match_at_def)
qed

lemma match_at_Some:
  assumes "match_at bs = Some m"
  shows "m = take (length m) bs \<and> matches_at bs 0 (length m)
         \<and> (\<forall>n. matches_at bs 0 n \<longrightarrow> n \<le> length m)"
proof -
  let ?run = "length (takeWhile any_char bs)"
  from assms have "backtrack bs ?run = Some m" by (simp add: match_at_def)
  from backtrack_Some [OF this] obtain j where
    j: "1 \<le> j" "j \<le> ?run" "dot_digits (drop j bs)" "m = take (j + 7) bs"
      "\<forall>j'. j < j' \<and> j' \<le> ?run \<longrightarrow> \<not> dot_digits (drop j' bs)"
    by blast
  from dot_digits_length [OF j(3)] have len: "j + 7 \<le> length bs" by simp
  with j(4) have lm: "length m = j + 7" by simp
  have m1: "m = take (length m) bs" using j(4) lm by simp
  have m2: "matches_at bs 0 (length m)"
    using len j lm by (simp add: matches_at_def name_shaped_prefix)
  have m3: "\<forall>n. matches_at bs 0 n \<longrightarrow> n \<le> length m"
  proof (intro allI impI)
    fix n assume "matches_at bs 0 n"
    then have n: "n \<le> length bs" "name_shaped (take n bs)"
      by (simp_all add: matches_at_def)
    then have c: "8 \<le> n" "n - 7 \<le> ?run" "dot_digits (drop (n - 7) bs)"
      by (simp_all add: name_shaped_prefix)
    show "n \<le> length m"
    proof (rule ccontr)
      assume "\<not> n \<le> length m"
      with lm have "j < n - 7" by simp
      with j(5) c show False by blast
    qed
  qed
  from m1 m2 m3 show ?thesis by blast
qed

lemma matches_at_Cons: "matches_at (b # bs) (Suc i) n = matches_at bs i n"
  by (simp add: matches_at_def)

lemma matches_at_Nil: "\<not> matches_at [] i n"
  by (simp add: matches_at_def name_shaped_def)

lemma findall_Nil: "findall bs = [] \<Longrightarrow> \<not> matches_at bs i n"
proof (induction bs arbitrary: i)
  case Nil
  show ?case by (rule matches_at_Nil)
next
  case (Cons b bs)
  from Cons.prems have none: "match_at (b # bs) = None" and rest: "findall bs = []"
    by (simp_all split: option.splits)
  show ?case
  proof (cases i)
    case 0
    with match_at_None [OF none] show ?thesis by simp
  next
    case (Suc i')
    with Cons.IH [OF rest] show ?thesis by (simp add: matches_at_Cons)
  qed
qed

lemma findall_Cons:
  "findall bs = m # ms \<Longrightarrow>
     \<exists>i. first_match bs i (length m) \<and> m = take (length m) (drop i bs)"
proof (induction bs)
  case Nil
  then show ?case by simp
next
  case (Cons b bs)
  show ?case
  proof (cases "match_at (b # bs)")
    case (Some m')
    with Cons.prems have "m' = m" by simp
    with match_at_Some [OF Some] show ?thesis
      by (intro exI [of _ 0]) (simp add: first_match_def)
  next
    case None
    with Cons.prems have "findall bs = m # ms" by simp
    from Cons.IH [OF this] obtain i where
      i: "first_match bs i (length m)" "m = take (length m) (drop i bs)"
      by blast
    have "first_match (b # bs) (Suc i) (length m)"
      unfolding first_match_def
    proof (intro conjI allI impI)
      show "matches_at (b # bs) (Suc i) (length m)"
        using i(1) by (simp add: first_match_def matches_at_Cons)
    next
      fix j m' assume "j < Suc i"
      show "\<not> matches_at (b # bs) j m'"
      proof (cases j)
        case 0
        with match_at_None [OF None] show ?thesis by simp
      next
        case (Suc j')
        with \<open>j < Suc i\<close> i(1) show ?thesis
          by (simp add: first_match_def matches_at_Cons)
      qed
    next
      fix m' assume "matches_at (b # bs) (Suc i) m'"
      with i(1) show "m' \<le> length m"
        by (simp add: first_match_def matches_at_Cons)
    qed
    with i(2) show ?thesis
      by (intro exI [of _ "Suc i"]) simp
  qed
qed


lemma RotateEvent_Inr:
  assumes "RotateEvent_init p es tm cc kw = Inr (e, p')"
  shows "position e = le_uint (take 8 (data p)) \<and> 8 \<le> es
     \<and> (case findall (trailer p es) of
          [] \<Rightarrow> next_binlog e = None
        | m # ms \<Rightarrow> \<exists>name. utf8_decode m = Some name \<and> next_binlog e = Some name)"
proof -
  from assms obtain b p1 pos rest p2 where
    r: "read 8 p = Inr (b, p1)" "unpack_le 8 b = Inr pos" "read (es - 8) p1 = Inr (rest, p2)"
    and c: "(case bnd (item0 (findall rest)) decode_default of
           Inr name \<Rightarrow> Inr (BinLogEvent.extend (BinLogEvent_init p es tm cc kw)
                              (RotateEvent.fields pos (Some name)), p2)
         | Inl e \<Rightarrow>
             if e = IndexError
             then Inr (BinLogEvent.extend (BinLogEvent_init p es tm cc kw)
                        (RotateEvent.fields pos None), p2)
             else Inl e) = Inr (e, p')"
    by (auto simp: RotateEvent_init_def Let_def elim!: bnd_InrE)
  from read_bytes_of [OF r(1)] unpack_le_Inr [OF r(2)] have pos: "pos = le_uint (take 8 (data p))"
    by simp
  from read_consumed [OF r(1)] have d1: "data p1 = drop 8 (data p)"
    by (simp add: consumed_def)
  from read_consumed [OF r(3)] have es: "8 \<le> es"
    by (simp add: consumed_def)
  from read_bytes_of [OF r(3)] d1 have rest: "rest = trailer p es"
    by (simp add: trailer_def)
  show ?thesis
  proof (cases "findall (trailer p es)")
    case Nil
    with c rest have "e = BinLogEvent.extend (BinLogEvent_init p es tm cc kw)
                        (RotateEvent.fields pos None)"
      by (simp add: item0_def)
    with Nil pos es show ?thesis
      by (simp add: BinLogEvent.defs RotateEvent.defs)
  next
    case (Cons m ms)
    show ?thesis
    proof (cases "utf8_decode m")
      case None
      with c rest Cons show ?thesis
        by (simp add: item0_def decode_default_def)
    next
      case (Some name)
      with c rest Cons have "e = BinLogEvent.extend (BinLogEvent_init p es tm cc kw)
                        (RotateEvent.fields pos (Some name))"
        by (simp add: item0_def decode_default_def)
      with Cons Some pos es show ?thesis
        by (simp add: BinLogEvent.defs RotateEvent.defs)
    qed
  qed
qed

lemma RotateEvent_no_match:
  assumes "8 \<le> es" and "es \<le> int (length (data p))"
    and "\<forall>i n. \<not> matches_at (trailer p es) i n"
  shows "\<exists>e p'. RotateEvent_init p es tm cc kw = Inr (e, p') \<and> next_binlog e = None"
proof -
  have f: "findall (trailer p es) = []"
  proof (cases "findall (trailer p es)")
    case Nil
    then show ?thesis .
  next
    case (Cons m ms)
    from findall_Cons [OF this] assms(3) show ?thesis
      by (auto simp: first_match_def)
  qed
  from assms(1,2) have "RotateEvent_init p es tm cc kw
      = Inr (BinLogEvent.extend (BinLogEvent_init p es tm cc kw)
               (RotateEvent.fields (le_uint (take 8 (data p))) None),
             p\<lparr>data := drop (nat es) (data p), read_bytes := read_bytes p + es\<rparr>)"
    using f
    by (simp add: RotateEvent_init_def Let_def read_ok unpack_le_def item0_def trailer_def
        nat_diff_distrib add.commute)
  then show ?thesis
    by (simp add: BinLogEvent.defs RotateEvent.defs)
qed

text \<open>
  C6, as amended. In a decoded RotateEvent the position is the first eight bytes read
  little-endian, and the remaining \<open>event_size - 8\<close> bytes are read as the trailer. The name
  of the next file is the decoding of the first match in the trailer: the leftmost
  substring, and the longest at its position, made of one or more bytes other than the
  line feed, a dot and six digits. When the name is absent the trailer has no such
  substring; and a trailer without one, in a packet that holds the declared bytes, is
  decoded without error, the name absent.
\<close>

theorem RotateEvent_decode:
  "(RotateEvent_init p es tm cc kw = Inr (e, p') \<longrightarrow>
      position e = le_uint (take 8 (data p))
      \<and> 8 \<le> es \<and> read_bytes p' = read_bytes p + es
      \<and> (case next_binlog e of
           None \<Rightarrow> \<forall>i n. \<not> matches_at (trailer p es) i n
         | Some name \<Rightarrow>
             \<exists>i n. first_match (trailer p es) i n
               \<and> utf8_decode (take n (drop i (trailer p es))) = Some name))
   \<and> (8 \<le> es \<and> es \<le> int (length (data p))
        \<and> (\<forall>i n. \<not> matches_at (trailer p es) i n) \<longrightarrow>
      (\<exists>e p'. RotateEvent_init p es tm cc kw = Inr (e, p') \<and> next_binlog e = None))"
proof (intro conjI impI)
  assume h: "RotateEvent_init p es tm cc kw = Inr (e, p')"
  note r = RotateEvent_Inr [OF h]
  from r show "position e = le_uint (take 8 (data p))" by simp
  from r show "8 \<le> es" by simp
  from RotateEvent_consumed [OF h] show "read_bytes p' = read_bytes p + es"
    by (simp add: consumed_def)
  show "case next_binlog e of
           None \<Rightarrow> \<forall>i n. \<not> matches_at (trailer p es) i n
         | Some name \<Rightarrow>
             \<exists>i n. first_match (trailer p es) i n
               \<and> utf8_decode (take n (drop i (trailer p es))) = Some name"
  proof (cases "findall (trailer p es)")
    case Nil
    with r have "next_binlog e = None" by simp
    with findall_Nil [OF Nil] show ?thesis by simp
  next
    case (Cons m ms)
    with r obtain name where n: "utf8_decode m = Some name" "next_binlog e = Some name"
      by auto
    from findall_Cons [OF Cons] obtain i where
      i: "first_match (trailer p es) i (length m)"
        "m = take (length m) (drop i (trailer p es))"
      by blast
    from n(1) i(2) have "utf8_decode (take (length m) (drop i (trailer p es))) = Some name"
      by simp
    with i(1) have "\<exists>i n. first_match (trailer p es) i n
               \<and> utf8_decode (take n (drop i (trailer p es))) = Some name"
      by blast
    with n(2) show ?thesis by simp
  qed
next
  assume "8 \<le> es \<and> es \<le> int (length (data p))
        \<and> (\<forall>i n. \<not> matches_at (trailer p es) i n)"
  then have a: "8 \<le> es" "es \<le> int (length (data p))"
    "\<forall>i n. \<not> matches_at (trailer p es) i n"
    by blast+
  show "\<exists>e p'. RotateEvent_init p es tm cc kw = Inr (e, p') \<and> next_binlog e = None"
    by (rule RotateEvent_no_match [OF a])
qed


lemmas regex_simps = match_at_def dot_digits_def is_digit_def any_char_def item0_def

lemma rotate_example_decode:
  "RotateEvent_init (packet_of rotate_example) 26 () () default_kwargs
   = Inr (BinLogEvent.extend (BinLogEvent_init (packet_of rotate_example) 26 () () default_kwargs)
            (RotateEvent.fields 4 (Some (ascii ''mysql-bin.000002''))),
          (packet_of rotate_example)\<lparr>data := [], read_bytes := 26\<rparr>)"
  by (simp add: RotateEvent_init_def rotate_example_def ascii_bytes_def ascii_def unpack_le_def
      decode_default_def regex_simps eval_simps)

lemma rotate_nameless_findall: "findall (trailer (packet_of rotate_nameless_example) 19) = []"
  by (simp add: trailer_def rotate_nameless_example_def ascii_bytes_def packet_of_def regex_simps)

text \<open>A trailer that is a line feed, a dot and six digits: one character, a dot, six
  digits, and yet no name is found.\<close>

theorem RotateEvent_decode_counterexample:
  "map_sum id (\<lambda>(e, p'). next_binlog e)
     (RotateEvent_init (packet_of rotate_newline_example) 16 () () default_kwargs)
   = Inr None
   \<and> loosely_name_shaped (trailer (packet_of rotate_newline_example) 16)"
  by (simp add: RotateEvent_init_def rotate_newline_example_def ascii_bytes_def unpack_le_def
      trailer_def loosely_name_shaped_def BinLogEvent.defs RotateEvent.defs
      regex_simps eval_simps)

theorem RotateEvent_decode_witness:
  "(\<exists>e p' i n.
      RotateEvent_init (packet_of rotate_example) 26 () () default_kwargs = Inr (e, p')
      \<and> position e = 4 \<and> read_bytes p' = 26
      \<and> next_binlog e = Some (ascii ''mysql-bin.000002'')
      \<and> first_match (trailer (packet_of rotate_example) 26) i n)
   \<and> (\<exists>e p'.
      RotateEvent_init (packet_of rotate_nameless_example) 19 () () default_kwargs = Inr (e, p')
      \<and> next_binlog e = None)"
proof
  let ?e = "BinLogEvent.extend (BinLogEvent_init (packet_of rotate_example) 26 () () default_kwargs)
            (RotateEvent.fields 4 (Some (ascii ''mysql-bin.000002'')))"
  let ?p' = "(packet_of rotate_example)\<lparr>data := [], read_bytes := 26\<rparr>"
  have nb: "next_binlog ?e = Some (ascii ''mysql-bin.000002'')" "position ?e = 4"
    by (simp_all add: BinLogEvent.defs RotateEvent.defs)
  from RotateEvent_decode [of "packet_of rotate_example" 26 "()" "()" default_kwargs ?e ?p']
    rotate_example_decode
  have "case next_binlog ?e of
           None \<Rightarrow> \<forall>i n. \<not> matches_at (trailer (packet_of rotate_example) 26) i n
         | Some name \<Rightarrow>
             \<exists>i n. first_match (trailer (packet_of rotate_example) 26) i n
               \<and> utf8_decode (take n (drop i (trailer (packet_of rotate_example) 26))) = Some name"
    by blast
  then obtain i n where "first_match (trailer (packet_of rotate_example) 26) i n"
    unfolding nb by auto
  with rotate_example_decode nb
  show "\<exists>e p' i n.
      RotateEvent_init (packet_of rotate_example) 26 () () default_kwargs = Inr (e, p')
      \<and> position e = 4 \<and> read_bytes p' = 26
      \<and> next_binlog e = Some (ascii ''mysql-bin.000002'')
      \<and> first_match (trailer (packet_of rotate_example) 26) i n"
    by (intro exI [of _ ?e] exI [of _ ?p'] exI [of _ i] exI [of _ n]) simp
next
  have "\<forall>i n. \<not> matches_at (trailer (packet_of rotate_nameless_example) 19) i n"
    using findall_Nil [OF rotate_nameless_findall] by blast
  with RotateEvent_decode
    [where p = "packet_of rotate_nameless_example" and es = 19
       and tm = "()" and cc = "()" and kw = default_kwargs, THEN conjunct2]
  show "\<exists>e p'.
      RotateEvent_init (packet_of rotate_nameless_example) 19 () () default_kwargs = Inr (e, p')
      \<and> next_binlog e = None"
    by (simp add: packet_of_def rotate_nameless_example_def ascii_bytes_def)
qed

end
